theory Spec2Isabelle
  imports Complex_Main "HOL-Library.Sublist"
begin

section \<open>JavaScript numbers\<close>

text \<open>
  A JavaScript \<^verbatim>\<open>number\<close> is modelled by its mathematical value: \<open>NaN\<close>, the two
  infinities, or a finite value held as an exact rational. The rounding of IEEE doubles to
  53 bits and the sign of zero are not modelled; every comparison, \<open>NaN\<close> rule and
  infinity rule of the language is.
\<close>

datatype jsnum = NaN | NegInf | Fin rat | PosInf

text \<open>The relational operators \<^verbatim>\<open><\<close>, \<^verbatim>\<open>>\<close>, \<^verbatim>\<open><=\<close>: false as soon as one side is \<open>NaN\<close>.\<close>

fun js_lt :: "jsnum \<Rightarrow> jsnum \<Rightarrow> bool" where
  "js_lt NaN _ = False"
| "js_lt _ NaN = False"
| "js_lt _ NegInf = False"
| "js_lt NegInf _ = True"
| "js_lt PosInf _ = False"
| "js_lt (Fin a) (Fin b) = (a < b)"
| "js_lt (Fin a) PosInf = True"

definition js_gt :: "jsnum \<Rightarrow> jsnum \<Rightarrow> bool" where
  "js_gt a b = js_lt b a"

text \<open>Strict equality \<^verbatim>\<open>===\<close> on numbers: \<open>NaN\<close> is equal to nothing, itself included.\<close>

definition js_strict_eq :: "jsnum \<Rightarrow> jsnum \<Rightarrow> bool" where
  "js_strict_eq a b = (a \<noteq> NaN \<and> b \<noteq> NaN \<and> a = b)"

definition js_le :: "jsnum \<Rightarrow> jsnum \<Rightarrow> bool" where
  "js_le a b = (js_lt a b \<or> js_strict_eq a b)"

text \<open>Addition and division, with the results the language gives at the infinities.\<close>

fun js_add :: "jsnum \<Rightarrow> jsnum \<Rightarrow> jsnum" where
  "js_add NaN _ = NaN"
| "js_add _ NaN = NaN"
| "js_add PosInf NegInf = NaN"
| "js_add NegInf PosInf = NaN"
| "js_add PosInf _ = PosInf"
| "js_add _ PosInf = PosInf"
| "js_add NegInf _ = NegInf"
| "js_add _ NegInf = NegInf"
| "js_add (Fin a) (Fin b) = Fin (a + b)"

fun js_div :: "jsnum \<Rightarrow> jsnum \<Rightarrow> jsnum" where
  "js_div NaN _ = NaN"
| "js_div _ NaN = NaN"
| "js_div (Fin a) (Fin b) =
     (if b = 0 then (if a = 0 then NaN else if 0 < a then PosInf else NegInf)
      else Fin (a / b))"
| "js_div (Fin a) _ = Fin 0"
| "js_div PosInf (Fin b) = (if b < 0 then NegInf else PosInf)"
| "js_div NegInf (Fin b) = (if b < 0 then PosInf else NegInf)"
| "js_div _ _ = NaN"

text \<open>
  \<^verbatim>\<open>Math.round\<close> rounds to the nearest integer, a tie going towards plus infinity:
  the floor of \<open>x + 1/2\<close>, which is \<^const>\<open>round\<close>.
\<close>

fun Math_round :: "jsnum \<Rightarrow> jsnum" where
  "Math_round (Fin a) = Fin (of_int (round a))"
| "Math_round x = x"

text \<open>
  \<^verbatim>\<open>Math.max(...xs)\<close> and \<^verbatim>\<open>Math.min(...xs)\<close>: \<open>NaN\<close> when an argument is \<open>NaN\<close>,
  minus (plus) infinity with no argument.
\<close>

fun js_max2 :: "jsnum \<Rightarrow> jsnum \<Rightarrow> jsnum" where
  "js_max2 NaN _ = NaN"
| "js_max2 _ NaN = NaN"
| "js_max2 a b = (if js_lt a b then b else a)"

fun js_min2 :: "jsnum \<Rightarrow> jsnum \<Rightarrow> jsnum" where
  "js_min2 NaN _ = NaN"
| "js_min2 _ NaN = NaN"
| "js_min2 a b = (if js_lt b a then b else a)"

fun Math_max :: "jsnum list \<Rightarrow> jsnum" where
  "Math_max [] = NegInf"
| "Math_max (x # xs) = js_max2 x (Math_max xs)"

fun Math_min :: "jsnum list \<Rightarrow> jsnum" where
  "Math_min [] = PosInf"
| "Math_min (x # xs) = js_min2 x (Math_min xs)"

subsection \<open>parseFloat\<close>

text \<open>
  \<^verbatim>\<open>parseFloat\<close> skips leading white space and reads the longest prefix that is a
  decimal literal: an optional sign, then \<^verbatim>\<open>Infinity\<close> or digits with an optional
  fraction and an optional exponent. With no such prefix the result is \<open>NaN\<close>; whatever
  follows the literal is ignored.
\<close>

definition isWhiteSpace :: "char \<Rightarrow> bool" where
  "isWhiteSpace c = (c \<in> set [CHR 0x09, CHR 0x0A, CHR 0x0B, CHR 0x0C, CHR 0x0D, CHR 0x20])"

definition isDigit :: "char \<Rightarrow> bool" where
  "isDigit c = (c \<in> set ''0123456789'')"

definition digitsValue :: "string \<Rightarrow> nat" where
  "digitsValue ds = foldl (\<lambda>a c. 10 * a + (of_char c - 48)) 0 ds"

definition startsWith :: "string \<Rightarrow> string \<Rightarrow> bool" where
  "startsWith s p = (take (length p) s = p)"

text \<open>The exponent part: \<^verbatim>\<open>e\<close> or \<^verbatim>\<open>E\<close>, an optional sign and at least one digit.\<close>

definition exponentPart :: "string \<Rightarrow> int" where
  "exponentPart s =
     (case s of
        [] \<Rightarrow> 0
      | c # r \<Rightarrow>
          if c = CHR ''e'' \<or> c = CHR ''E'' then
            (case r of
               [] \<Rightarrow> 0
             | d # r' \<Rightarrow>
                 if d = CHR ''-'' then - int (digitsValue (takeWhile isDigit r'))
                 else if d = CHR ''+'' then int (digitsValue (takeWhile isDigit r'))
                 else int (digitsValue (takeWhile isDigit r)))
          else 0)"

definition scale10 :: "rat \<Rightarrow> int \<Rightarrow> rat" where
  "scale10 m e = (if 0 \<le> e then m * 10 ^ nat e else m / 10 ^ nat (- e))"

definition unsignedLiteral :: "string \<Rightarrow> jsnum" where
  "unsignedLiteral s =
     (if startsWith s ''Infinity'' then PosInf
      else
        let ip = takeWhile isDigit s;
            r1 = dropWhile isDigit s;
            hasDot = startsWith r1 ''.'';
            fp = (if hasDot then takeWhile isDigit (tl r1) else []);
            r2 = (if hasDot then dropWhile isDigit (tl r1) else r1)
        in if ip = [] \<and> fp = [] then NaN
           else Fin (scale10
                  (of_nat (digitsValue ip) + of_nat (digitsValue fp) / 10 ^ length fp)
                  (exponentPart r2)))"

definition js_neg :: "jsnum \<Rightarrow> jsnum" where
  "js_neg x = (case x of NaN \<Rightarrow> NaN | NegInf \<Rightarrow> PosInf | PosInf \<Rightarrow> NegInf | Fin a \<Rightarrow> Fin (- a))"

definition parseFloat :: "string \<Rightarrow> jsnum" where
  "parseFloat str =
     (case dropWhile isWhiteSpace str of
        [] \<Rightarrow> NaN
      | c # r \<Rightarrow>
          if c = CHR ''-'' then js_neg (unsignedLiteral r)
          else if c = CHR ''+'' then unsignedLiteral r
          else unsignedLiteral (c # r))"

section \<open>The data model (types/flight)\<close>

text \<open>
  The interfaces of the repository, field for field. Four names are decorated because
  they clash: \<open>flight_id\<close> is \<^verbatim>\<open>Flight.id\<close>, \<open>at_time\<close> is \<^verbatim>\<open>at\<close>,
  \<open>segment_duration\<close> is \<^verbatim>\<open>Segment.duration\<close>, and the fields of
  \<^verbatim>\<open>PriceDataPoint\<close> carry the prefix \<open>point_\<close>.

  The time stamp \<^verbatim>\<open>at\<close> is held as the value \<^verbatim>\<open>parseISO\<close> of date-fns gives for
  the string: \<open>None\<close> for an Invalid Date, otherwise the local wall-clock time in
  milliseconds since the epoch. The local zone is taken without daylight-saving
  transitions, so that a calendar day is 86400000 milliseconds.
\<close>

type_synonym iso_time = "int option"

record endpoint =
  iataCode :: string
  at_time :: iso_time

record aircraft =
  code :: string

record segment =
  departure :: endpoint
  arrival :: endpoint
  carrierCode :: string
  number :: string
  aircraft :: aircraft
  segment_duration :: string
  numberOfStops :: jsnum

record itinerary =
  duration :: string
  segments :: "segment list"

record price =
  total :: string
  currency :: string

record flight =
  flight_id :: string
  price :: price
  itineraries :: "itinerary list"
  numberOfBookableSeats :: nat
  validatingAirlineCodes :: "string list"

record searchParams =
  origin :: string
  destination :: string
  departureDate :: string
  returnDate :: "string option"
  adults :: nat

record filters =
  stops :: "jsnum option"
  maxPrice :: "jsnum option"
  airlines :: "string list"

record priceDataPoint =
  point_date :: int
  point_price :: "jsnum option"
  point_count :: nat

section \<open>filterFlights\<close>

text \<open>
  The callback of \<^verbatim>\<open>flights.filter\<close>: three guarded early returns of \<open>False\<close>, then
  \<open>True\<close>.
\<close>

definition keepFlight :: "filters \<Rightarrow> flight \<Rightarrow> bool" where
  "keepFlight fs fl =
     (if stops fs \<noteq> None \<and>
         \<not> js_strict_eq
             (Math_max (map (\<lambda>it. Math_max (map numberOfStops (segments it))) (itineraries fl)))
             (the (stops fs))
      then False
      else if maxPrice fs \<noteq> None \<and> js_gt (parseFloat (total (price fl))) (the (maxPrice fs))
      then False
      else if airlines fs \<noteq> [] \<and>
              \<not> list_ex (\<lambda>airline. airline \<in> set (airlines fs)) (validatingAirlineCodes fl)
      then False
      else True)"

definition filterFlights :: "flight list \<Rightarrow> filters \<Rightarrow> flight list" where
  "filterFlights flights fs = filter (keepFlight fs) flights"

section \<open>Dates (date-fns)\<close>

text \<open>
  A valid \<^verbatim>\<open>Date\<close> is its local time in milliseconds. \<^verbatim>\<open>format(d, 'yyyy-MM-dd')\<close> is
  modelled by the number of the calendar day, which stands one-to-one for the string
  (day 19875 is 2024-06-01); \<^verbatim>\<open>addDays\<close> keeps the time of day.
\<close>

definition MS_PER_DAY :: int where
  "MS_PER_DAY = 86400000"

definition format_date :: "int \<Rightarrow> int" where
  "format_date d = d div MS_PER_DAY"

definition addDays :: "int \<Rightarrow> int \<Rightarrow> int" where
  "addDays d n = d + n * MS_PER_DAY"

section \<open>extractPriceData\<close>

datatype js_error = TypeError | RangeError

text \<open>
  \<^verbatim>\<open>flight.itineraries[0].segments[0].departure.at\<close>: reading \<^verbatim>\<open>segments\<close> or
  \<^verbatim>\<open>departure\<close> of \<^verbatim>\<open>undefined\<close> throws a TypeError.
\<close>

definition firstDeparture :: "flight \<Rightarrow> js_error + iso_time" where
  "firstDeparture fl =
     (case itineraries fl of
        [] \<Rightarrow> Inl TypeError
      | it # _ \<Rightarrow> (case segments it of [] \<Rightarrow> Inl TypeError | sg # _ \<Rightarrow> Inr (at_time (departure sg))))"

text \<open>\<^verbatim>\<open>format\<close> throws a RangeError on an Invalid Date.\<close>

definition departureTime :: "flight \<Rightarrow> js_error + int" where
  "departureTime fl =
     (case firstDeparture fl of
        Inl e \<Rightarrow> Inl e
      | Inr None \<Rightarrow> Inl RangeError
      | Inr (Some d) \<Rightarrow> Inr d)"

definition departureDay :: "flight \<Rightarrow> js_error + int" where
  "departureDay fl = (case departureTime fl of Inl e \<Rightarrow> Inl e | Inr d \<Rightarrow> Inr (format_date d))"

text \<open>The values of \<^verbatim>\<open>priceMap\<close>: \<^verbatim>\<open>{ total, count }\<close>.\<close>

record bucket =
  bucket_total :: jsnum
  bucket_count :: nat

text \<open>The \<^verbatim>\<open>forEach\<close> that groups the prices by date, the map threaded through.\<close>

fun groupPrices :: "flight list \<Rightarrow> (int \<rightharpoonup> bucket) \<Rightarrow> js_error + (int \<rightharpoonup> bucket)" where
  "groupPrices [] priceMap = Inr priceMap"
| "groupPrices (fl # rest) priceMap =
     (let p = parseFloat (total (price fl)) in
      case departureDay fl of
        Inl e \<Rightarrow> Inl e
      | Inr date \<Rightarrow>
          let existing = (case priceMap date of
                            Some b \<Rightarrow> b
                          | None \<Rightarrow> \<lparr>bucket_total = Fin 0, bucket_count = 0\<rparr>)
          in groupPrices rest
               (priceMap(date \<mapsto> \<lparr>bucket_total = js_add (bucket_total existing) p,
                                  bucket_count = bucket_count existing + 1\<rparr>)))"

text \<open>
  \<^verbatim>\<open>flights.map(parseISO ...)\<close> followed by \<^verbatim>\<open>getTime\<close>. It reads what the
  \<^verbatim>\<open>forEach\<close> has read, so it has a value whenever the \<^verbatim>\<open>forEach\<close> has passed.
\<close>

fun flightDates :: "flight list \<Rightarrow> js_error + int list" where
  "flightDates [] = Inr []"
| "flightDates (fl # rest) =
     (case departureTime fl of
        Inl e \<Rightarrow> Inl e
      | Inr d \<Rightarrow> (case flightDates rest of Inl e \<Rightarrow> Inl e | Inr ds \<Rightarrow> Inr (d # ds)))"

text \<open>The object pushed for one date.\<close>

definition dataPointFor :: "(int \<rightharpoonup> bucket) \<Rightarrow> int \<Rightarrow> priceDataPoint" where
  "dataPointFor priceMap dateStr =
     (let flightData = priceMap dateStr in
      \<lparr>point_date = dateStr,
       point_price = (case flightData of
                        Some b \<Rightarrow> Some (Math_round (js_div (bucket_total b) (Fin (of_nat (bucket_count b)))))
                      | None \<Rightarrow> None),
       point_count = (case flightData of Some b \<Rightarrow> bucket_count b | None \<Rightarrow> 0)\<rparr>)"

text \<open>The \<^verbatim>\<open>while (currentDate <= endDate)\<close> loop.\<close>

function buildDates ::
  "(int \<rightharpoonup> bucket) \<Rightarrow> int \<Rightarrow> int \<Rightarrow> priceDataPoint list \<Rightarrow> priceDataPoint list" where
  "buildDates priceMap currentDate endDate allDates =
     (if currentDate \<le> endDate then
        buildDates priceMap (addDays currentDate 1) endDate
          (allDates @ [dataPointFor priceMap (format_date currentDate)])
      else allDates)"
  by pat_completeness auto
termination
  by (relation "measure (\<lambda>(priceMap, currentDate, endDate, allDates). nat (endDate - currentDate + 1))")
     (auto simp: addDays_def MS_PER_DAY_def)

declare buildDates.simps [simp del]

subsection \<open>Gap fill\<close>

text \<open>
  What one call of \<^verbatim>\<open>getPriceForDate\<close> does as seen by its caller: it resolves with a
  price or with \<^verbatim>\<open>null\<close>, or it rejects. The function is a parameter here; each date
  of the series is asked for at most once.
\<close>

datatype fetch_outcome = Resolved "jsnum option" | Rejected

type_synonym price_source = "string \<Rightarrow> string \<Rightarrow> int \<Rightarrow> nat \<Rightarrow> fetch_outcome"

text \<open>
  What the loop does besides writing prices: a request is issued, the batch has settled
  (\<^verbatim>\<open>await Promise.allSettled\<close>), a pause of so many milliseconds is awaited.
\<close>

datatype event = Request int | AllSettled | Sleep nat

definition BATCH_SIZE :: nat where
  "BATCH_SIZE = 5"

definition slice :: "'a list \<Rightarrow> nat \<Rightarrow> nat \<Rightarrow> 'a list" where
  "slice xs i j = take (j - i) (drop i xs)"

definition datesToFetch :: "priceDataPoint list \<Rightarrow> (priceDataPoint \<times> nat) list" where
  "datesToFetch allDates =
     filter (\<lambda>(dataPoint, index). point_price dataPoint = None)
       (zip allDates [0..<length allDates])"

text \<open>
  The body of one promise: the \<^verbatim>\<open>try\<close> writes the rounded price and the count 1 into
  \<^verbatim>\<open>allDates[index]\<close> when the price is not \<^verbatim>\<open>null\<close>; the \<^verbatim>\<open>catch\<close> is empty, so
  a rejection, like an index outside the array, leaves the array as it is.
\<close>

definition fetchOne ::
  "price_source \<Rightarrow> searchParams \<Rightarrow> priceDataPoint list \<Rightarrow> priceDataPoint \<times> nat \<Rightarrow> priceDataPoint list" where
  "fetchOne getPriceForDate sp allDates item =
     (case getPriceForDate (origin sp) (destination sp) (point_date (fst item)) (adults sp) of
        Resolved (Some p) \<Rightarrow>
          allDates[snd item := (allDates ! snd item)\<lparr>point_price := Some (Math_round p), point_count := 1\<rparr>]
      | Resolved None \<Rightarrow> allDates
      | Rejected \<Rightarrow> allDates)"

text \<open>
  The \<^verbatim>\<open>for (let i = 0; i < datesToFetch.length; i += BATCH_SIZE)\<close> loop. The promises
  of a batch are started in the order of the batch and are treated here in that order; they
  write different entries.
\<close>

function fetchLoop ::
  "price_source \<Rightarrow> searchParams \<Rightarrow> (priceDataPoint \<times> nat) list \<Rightarrow> nat \<Rightarrow>
     priceDataPoint list \<times> event list \<Rightarrow> priceDataPoint list \<times> event list" where
  "fetchLoop getPriceForDate sp toFetch i (allDates, trace) =
     (if i < length toFetch then
        let batch = slice toFetch i (i + BATCH_SIZE);
            allDates' = foldl (fetchOne getPriceForDate sp) allDates batch;
            trace' = trace @ map (\<lambda>item. Request (point_date (fst item))) batch @ [AllSettled]
                       @ (if i + BATCH_SIZE < length toFetch then [Sleep 200] else [])
        in fetchLoop getPriceForDate sp toFetch (i + BATCH_SIZE) (allDates', trace')
      else (allDates, trace))"
  by pat_completeness auto
termination
  by (relation "measure (\<lambda>(getPriceForDate, sp, toFetch, i, st). length toFetch - i)")
     (auto simp: BATCH_SIZE_def)

declare fetchLoop.simps [simp del]

text \<open>
  The function: the points it returns and the events of its run. \<open>Inl\<close> is the error
  its promise rejects with.
\<close>

definition extractPriceData ::
  "price_source \<Rightarrow> flight list \<Rightarrow> searchParams option \<Rightarrow>
     js_error + (priceDataPoint list \<times> event list)" where
  "extractPriceData getPriceForDate flights searchParams =
     (if length flights = 0 then Inr ([], [])
      else
        case groupPrices flights Map.empty of
          Inl e \<Rightarrow> Inl e
        | Inr priceMap \<Rightarrow>
            (case flightDates flights of
               Inl e \<Rightarrow> Inl e
             | Inr ds \<Rightarrow>
                 let earliestDate = Min (set ds);
                     latestDate = Max (set ds);
                     endDate = addDays latestDate 5;
                     allDates = buildDates priceMap earliestDate endDate []
                 in (case searchParams of
                       None \<Rightarrow> Inr (allDates, [])
                     | Some sp \<Rightarrow>
                         Inr (fetchLoop getPriceForDate sp (datesToFetch allDates) 0 (allDates, [])))))"

section \<open>services/amadeusApi: getPriceForDate\<close>

text \<open>
  The module keeps the access token and its expiry in two variables. The world outside is
  a script: the clock read by the \<open>k\<close>-th call of \<^verbatim>\<open>getAccessToken\<close>, the answer of the
  token endpoint to the \<open>k\<close>-th token request and the answer of the offers endpoint to the
  \<open>k\<close>-th offers request. The state counts the calls and the requests made so far.
\<close>

record world =
  accessToken :: "string option"
  tokenExpiry :: int
  tokenCalls :: nat
  tokenRequests :: nat
  offerRequests :: nat

text \<open>
  The token endpoint grants \<^verbatim>\<open>access_token\<close> (possibly missing) and \<^verbatim>\<open>expires_in\<close>,
  or the request fails. The offers endpoint answers with \<^verbatim>\<open>data.data\<close> (possibly
  missing), with an error status, or not at all.
\<close>

datatype token_response = TokenGranted "string option" int | TokenRefused

datatype http_response = Ok "flight list option" | HttpError nat | NetworkError

record environment =
  credentials :: bool
  clock :: "nat \<Rightarrow> int"
  tokenEndpoint :: "nat \<Rightarrow> token_response"
  offersEndpoint :: "nat \<Rightarrow> http_response"

text \<open>
  What a \<^verbatim>\<open>catch\<close> receives: a plain \<^verbatim>\<open>Error\<close> with its message, or the error of
  axios with the status of the response, if there was one.
\<close>

datatype thrown = PlainError string | AxiosError "nat option"

definition response_status :: "thrown \<Rightarrow> nat option" where
  "response_status err = (case err of PlainError _ \<Rightarrow> None | AxiosError st \<Rightarrow> st)"

text \<open>A string or \<^verbatim>\<open>null\<close> is truthy when it is a string that is not empty.\<close>

definition truthy :: "string option \<Rightarrow> bool" where
  "truthy s = (case s of None \<Rightarrow> False | Some v \<Rightarrow> v \<noteq> [])"

definition getAccessToken :: "environment \<Rightarrow> world \<Rightarrow> (thrown + string) \<times> world" where
  "getAccessToken env w =
     (let now = clock env (tokenCalls w);
          w0 = w\<lparr>tokenCalls := tokenCalls w + 1\<rparr>
      in if truthy (accessToken w) \<and> now < tokenExpiry w then (Inr (the (accessToken w)), w0)
         else if \<not> credentials env then
           (Inl (PlainError ''Amadeus API credentials not configured. Please set VITE_AMADEUS_CLIENT_ID and VITE_AMADEUS_CLIENT_SECRET in your .env file''), w0)
         else
           (case tokenEndpoint env (tokenRequests w) of
              TokenRefused \<Rightarrow>
                (Inl (PlainError ''Failed to authenticate with Amadeus API''),
                 w0\<lparr>tokenRequests := tokenRequests w + 1\<rparr>)
            | TokenGranted access_token expires_in \<Rightarrow>
                let w1 = w0\<lparr>tokenRequests := tokenRequests w + 1,
                            accessToken := access_token,
                            tokenExpiry := now + (expires_in - 300) * 1000\<rparr>
                in if \<not> truthy access_token
                   then (Inl (PlainError ''Failed to authenticate with Amadeus API''), w1)
                   else (Inr (the access_token), w1)))"

text \<open>The \<^verbatim>\<open>try\<close> block of \<^verbatim>\<open>getPriceForDate\<close>: what it returns or throws.\<close>

definition getPriceForDate_try :: "environment \<Rightarrow> world \<Rightarrow> (thrown + jsnum option) \<times> world" where
  "getPriceForDate_try env w =
     (case getAccessToken env w of
        (Inl err, w1) \<Rightarrow> (Inl err, w1)
      | (Inr token, w1) \<Rightarrow>
          let w2 = w1\<lparr>offerRequests := offerRequests w1 + 1\<rparr> in
          (case offersEndpoint env (offerRequests w1) of
             HttpError st \<Rightarrow> (Inl (AxiosError (Some st)), w2)
           | NetworkError \<Rightarrow> (Inl (AxiosError None), w2)
           | Ok data \<Rightarrow>
               let flights = (case data of None \<Rightarrow> [] | Some fs \<Rightarrow> fs) in
               if length flights = 0 then (Inr None, w2)
               else (Inr (Some (Math_min (map (\<lambda>fl. parseFloat (total (price fl))) flights))), w2)))"

text \<open>
  The function. A status other than 401 makes the \<^verbatim>\<open>catch\<close> return \<^verbatim>\<open>null\<close>; a 401
  clears the token and calls the function again. The recursion has no bound in the
  source; here the first argument bounds the number of attempts, and \<open>None\<close> says that the
  call has not returned within them. The route, the date and the passenger count only
  travel into the request, whose answer is the script's.
\<close>

fun getPriceForDate ::
  "nat \<Rightarrow> environment \<Rightarrow> string \<Rightarrow> string \<Rightarrow> int \<Rightarrow> nat \<Rightarrow> world \<Rightarrow> (fetch_outcome \<times> world) option" where
  "getPriceForDate 0 env orig dest date n w = None"
| "getPriceForDate (Suc fuel) env orig dest date n w =
     (case getPriceForDate_try env w of
        (Inr result, w') \<Rightarrow> Some (Resolved result, w')
      | (Inl err, w') \<Rightarrow>
          if response_status err \<noteq> Some 401 then Some (Resolved None, w')
          else getPriceForDate fuel env orig dest date n (w'\<lparr>accessToken := None\<rparr>))"

section \<open>App: handleSearch\<close>

text \<open>
  The state of the component, one field for each \<^verbatim>\<open>useState\<close>; the names carry the
  prefix \<open>app_\<close>. The setters are applied in the order of the source.
\<close>

record appState =
  app_flights :: "flight list"
  app_loading :: bool
  app_error :: "string option"
  app_hasSearched :: bool
  app_searchParams :: "searchParams option"
  app_priceData :: "priceDataPoint list"
  app_loadingPrices :: bool
  app_filters :: filters

text \<open>
  What the \<^verbatim>\<open>catch\<close> of \<^verbatim>\<open>handleSearch\<close> can receive: an \<^verbatim>\<open>Error\<close> with its message,
  or a value that is no \<^verbatim>\<open>Error\<close>. The promise of \<^verbatim>\<open>searchFlights\<close> resolves with
  offers or rejects.
\<close>

datatype caught = ErrorObject string | NotAnError

datatype search_outcome = SearchResolved "flight list" | SearchRejected caught

definition handleSearch_catch :: "caught \<Rightarrow> appState \<Rightarrow> appState" where
  "handleSearch_catch err st =
     (let errorMessage = (case err of ErrorObject message \<Rightarrow> message
                                    | NotAnError \<Rightarrow> ''Failed to search flights'')
      in st\<lparr>app_error := Some errorMessage, app_flights := [], app_priceData := []\<rparr>)"

text \<open>
  The handler, given the outcome of \<^verbatim>\<open>searchFlights\<close>, the price source that
  \<^verbatim>\<open>extractPriceData\<close> asks, and the message the engine gives to an error thrown inside
  \<^verbatim>\<open>extractPriceData\<close>.
\<close>

definition handleSearch ::
  "(js_error \<Rightarrow> string) \<Rightarrow> price_source \<Rightarrow> search_outcome \<Rightarrow> searchParams \<Rightarrow> appState \<Rightarrow> appState" where
  "handleSearch messageOf source outcome params st =
     (let st1 = st\<lparr>app_loading := True, app_error := None, app_hasSearched := True,
                    app_searchParams := Some params,
                    app_filters := \<lparr>stops = None, maxPrice = None, airlines = []\<rparr>\<rparr>;
          st2 =
            (case outcome of
               SearchRejected err \<Rightarrow> handleSearch_catch err st1
             | SearchResolved results \<Rightarrow>
                 let st3 = st1\<lparr>app_flights := results\<rparr> in
                 if length results > 0 then
                   (let st4 = st3\<lparr>app_loadingPrices := True\<rparr> in
                    case extractPriceData source results (Some params) of
                      Inr (data, _) \<Rightarrow> st4\<lparr>app_priceData := data, app_loadingPrices := False\<rparr>
                    | Inl _ \<Rightarrow>
                        (case extractPriceData source results None of
                           Inr (basicData, _) \<Rightarrow>
                             st4\<lparr>app_priceData := basicData, app_loadingPrices := False\<rparr>
                         | Inl e \<Rightarrow>
                             handleSearch_catch (ErrorObject (messageOf e))
                               (st4\<lparr>app_loadingPrices := False\<rparr>)))
                 else st3\<lparr>app_priceData := []\<rparr>)
      in st2\<lparr>app_loading := False\<rparr>)"


section \<open>The functions on a store\<close>

text \<open>
  For the question which objects a call writes, arrays and objects live in a store: a
  reference is an index into a list of cells, and \<^verbatim>\<open>[]\<close>, \<^verbatim>\<open>{...}\<close> and
  \<^verbatim>\<open>Array.prototype.filter\<close> allocate a new cell at its end. An array cell holds the
  references of its elements. The map \<^verbatim>\<open>priceMap\<close> and the list \<^verbatim>\<open>flightDates\<close> never
  leave \<^verbatim>\<open>extractPriceData\<close> and stay values.
\<close>

type_synonym ref = nat

datatype cell =
  FlightCell flight
| FlightArrayCell "ref list"
| PointCell priceDataPoint
| PointArrayCell "ref list"

type_synonym store = "cell list"

definition alloc :: "store \<Rightarrow> cell \<Rightarrow> store \<times> ref" where
  "alloc h c = (h @ [c], length h)"

definition readFlight :: "store \<Rightarrow> ref \<Rightarrow> flight option" where
  "readFlight h r =
     (if r < length h then (case h ! r of FlightCell fl \<Rightarrow> Some fl | _ \<Rightarrow> None) else None)"

definition readPoint :: "store \<Rightarrow> ref \<Rightarrow> priceDataPoint option" where
  "readPoint h r =
     (if r < length h then (case h ! r of PointCell pt \<Rightarrow> Some pt | _ \<Rightarrow> None) else None)"

text \<open>The offers, and the points, that an array reference stands for.\<close>

definition readFlights :: "store \<Rightarrow> ref \<Rightarrow> flight list option" where
  "readFlights h a =
     (if a < length h then
        (case h ! a of FlightArrayCell refs \<Rightarrow> those (map (readFlight h) refs) | _ \<Rightarrow> None)
      else None)"

definition readPoints :: "store \<Rightarrow> ref \<Rightarrow> priceDataPoint list option" where
  "readPoints h a =
     (if a < length h then
        (case h ! a of PointArrayCell refs \<Rightarrow> those (map (readPoint h) refs) | _ \<Rightarrow> None)
      else None)"

definition arrayRefs :: "store \<Rightarrow> ref \<Rightarrow> ref list" where
  "arrayRefs h a =
     (if a < length h then
        (case h ! a of FlightArrayCell refs \<Rightarrow> refs | PointArrayCell refs \<Rightarrow> refs | _ \<Rightarrow> [])
      else [])"

text \<open>
  \<open>filterFlights\<close>: the callback only reads; \<^verbatim>\<open>filter\<close> allocates the array of the
  references it keeps. \<open>None\<close> stands for a reference that is no array of offers, which the
  types of the source exclude.
\<close>

definition filterFlights_store :: "store \<Rightarrow> ref \<Rightarrow> filters \<Rightarrow> (store \<times> ref) option" where
  "filterFlights_store h flights fs =
     (case readFlights h flights of
        None \<Rightarrow> None
      | Some _ \<Rightarrow>
          Some (alloc h (FlightArrayCell
                  (filter (\<lambda>r. keepFlight fs (the (readFlight h r))) (arrayRefs h flights)))))"

text \<open>\<^verbatim>\<open>allDates.push(p)\<close>.\<close>

definition push :: "store \<Rightarrow> ref \<Rightarrow> ref \<Rightarrow> store" where
  "push h allDates p = h[allDates := PointArrayCell (arrayRefs h allDates @ [p])]"

function buildDates_store ::
  "(int \<rightharpoonup> bucket) \<Rightarrow> int \<Rightarrow> int \<Rightarrow> ref \<Rightarrow> store \<Rightarrow> store" where
  "buildDates_store priceMap currentDate endDate allDates h =
     (if currentDate \<le> endDate then
        (case alloc h (PointCell (dataPointFor priceMap (format_date currentDate))) of
           (h1, p) \<Rightarrow>
             buildDates_store priceMap (addDays currentDate 1) endDate allDates (push h1 allDates p))
      else h)"
  by pat_completeness auto
termination
  by (relation "measure (\<lambda>(priceMap, currentDate, endDate, allDates, h). nat (endDate - currentDate + 1))")
     (auto simp: addDays_def MS_PER_DAY_def)

declare buildDates_store.simps [simp del]

text \<open>The pairs of a point object and its index, for the points without a price.\<close>

definition datesToFetch_store :: "store \<Rightarrow> ref \<Rightarrow> (ref \<times> nat) list" where
  "datesToFetch_store h allDates =
     filter (\<lambda>(dataPoint, index).
               (case readPoint h dataPoint of Some pt \<Rightarrow> point_price pt = None | None \<Rightarrow> False))
       (zip (arrayRefs h allDates) [0..<length (arrayRefs h allDates)])"

text \<open>
  The body of one promise: the date is read from the object \<^verbatim>\<open>dataPoint\<close>, the price
  and the count are written into the object \<^verbatim>\<open>allDates[index]\<close>.
\<close>

definition fetchOne_store ::
  "price_source \<Rightarrow> searchParams \<Rightarrow> ref \<Rightarrow> store \<Rightarrow> ref \<times> nat \<Rightarrow> store" where
  "fetchOne_store source sp allDates h item =
     (case readPoint h (fst item) of
        None \<Rightarrow> h
      | Some dataPoint \<Rightarrow>
          (case source (origin sp) (destination sp) (point_date dataPoint) (adults sp) of
             Resolved (Some p) \<Rightarrow>
               (let target = arrayRefs h allDates ! snd item in
                case readPoint h target of
                  None \<Rightarrow> h
                | Some pt \<Rightarrow>
                    h[target := PointCell (pt\<lparr>point_price := Some (Math_round p), point_count := 1\<rparr>)])
           | Resolved None \<Rightarrow> h
           | Rejected \<Rightarrow> h))"

function fetchLoop_store ::
  "price_source \<Rightarrow> searchParams \<Rightarrow> ref \<Rightarrow> (ref \<times> nat) list \<Rightarrow> nat \<Rightarrow> store \<Rightarrow> store" where
  "fetchLoop_store source sp allDates toFetch i h =
     (if i < length toFetch then
        fetchLoop_store source sp allDates toFetch (i + BATCH_SIZE)
          (foldl (fetchOne_store source sp allDates) h (slice toFetch i (i + BATCH_SIZE)))
      else h)"
  by pat_completeness auto
termination
  by (relation "measure (\<lambda>(source, sp, allDates, toFetch, i, h). length toFetch - i)")
     (auto simp: BATCH_SIZE_def)

declare fetchLoop_store.simps [simp del]

text \<open>
  \<open>extractPriceData\<close> on the store: the store after the call, and the error thrown or the
  reference of the array returned.
\<close>

definition extractPriceData_store ::
  "price_source \<Rightarrow> store \<Rightarrow> ref \<Rightarrow> searchParams option \<Rightarrow> (store \<times> (js_error + ref)) option" where
  "extractPriceData_store source h flightsRef searchParams =
     (case readFlights h flightsRef of
        None \<Rightarrow> None
      | Some flights \<Rightarrow>
          if length flights = 0 then
            (case alloc h (PointArrayCell []) of (h1, allDates) \<Rightarrow> Some (h1, Inr allDates))
          else
            (case groupPrices flights Map.empty of
               Inl e \<Rightarrow> Some (h, Inl e)
             | Inr priceMap \<Rightarrow>
                 (case flightDates flights of
                    Inl e \<Rightarrow> Some (h, Inl e)
                  | Inr ds \<Rightarrow>
                      let earliestDate = Min (set ds);
                          latestDate = Max (set ds);
                          endDate = addDays latestDate 5
                      in (case alloc h (PointArrayCell []) of
                            (h1, allDates) \<Rightarrow>
                              let h2 = buildDates_store priceMap earliestDate endDate allDates h1
                              in (case searchParams of
                                    None \<Rightarrow> Some (h2, Inr allDates)
                                  | Some sp \<Rightarrow>
                                      Some (fetchLoop_store source sp allDates
                                              (datesToFetch_store h2 allDates) 0 h2,
                                            Inr allDates))))))"

section \<open>The filter, as the specification words it\<close>

text \<open>
  The three predicates of the Result Filter Engine. The stop count of an offer is the
  maximum over all segments of all itineraries, taken at once.
\<close>

definition allStops :: "flight \<Rightarrow> jsnum list" where
  "allStops fl = map numberOfStops (concat (map segments (itineraries fl)))"

definition stopsPredicate :: "filters \<Rightarrow> flight \<Rightarrow> bool" where
  "stopsPredicate fs fl =
     (case stops fs of None \<Rightarrow> True | Some s \<Rightarrow> js_strict_eq (Math_max (allStops fl)) s)"

text \<open>The price predicate as the specification states it: the total is at most the ceiling.\<close>

definition pricePredicate_stated :: "filters \<Rightarrow> flight \<Rightarrow> bool" where
  "pricePredicate_stated fs fl =
     (case maxPrice fs of None \<Rightarrow> True | Some m \<Rightarrow> js_le (parseFloat (total (price fl))) m)"

text \<open>The price predicate of the code: the total is not above the ceiling.\<close>

definition pricePredicate :: "filters \<Rightarrow> flight \<Rightarrow> bool" where
  "pricePredicate fs fl =
     (case maxPrice fs of None \<Rightarrow> True | Some m \<Rightarrow> \<not> js_gt (parseFloat (total (price fl))) m)"

definition airlinesPredicate :: "filters \<Rightarrow> flight \<Rightarrow> bool" where
  "airlinesPredicate fs fl =
     (airlines fs = [] \<or> (\<exists>a \<in> set (validatingAirlineCodes fl). a \<in> set (airlines fs)))"

definition filter_stated :: "flight list \<Rightarrow> filters \<Rightarrow> flight list" where
  "filter_stated flights fs =
     filter (\<lambda>fl. stopsPredicate fs fl \<and> pricePredicate_stated fs fl \<and> airlinesPredicate fs fl) flights"

text \<open>The no-constraint filter specification.\<close>

definition noConstraint :: filters where
  "noConstraint = \<lparr>stops = None, maxPrice = None, airlines = []\<rparr>"

section \<open>The aggregator, as the specification words it\<close>

text \<open>How many times the \<^verbatim>\<open>while\<close> loop runs from \<open>c\<close> to \<open>e\<close>.\<close>

definition numDays :: "int \<Rightarrow> int \<Rightarrow> nat" where
  "numDays c e = (if c \<le> e then nat ((e - c) div MS_PER_DAY) + 1 else 0)"

text \<open>
  Step A. The offers of a date are those whose first segment of the first itinerary departs
  on it; the price of the date is the rounded quotient of the sum of their totals by their
  number.
\<close>

definition offersOn :: "flight list \<Rightarrow> int \<Rightarrow> flight list" where
  "offersOn flights d = filter (\<lambda>fl. departureDay fl = Inr d) flights"

definition js_sum :: "jsnum list \<Rightarrow> jsnum" where
  "js_sum xs = foldl js_add (Fin 0) xs"

definition averagePrice :: "flight list \<Rightarrow> jsnum" where
  "averagePrice grp =
     Math_round (js_div (js_sum (map (\<lambda>fl. parseFloat (total (price fl))) grp))
                        (Fin (of_nat (length grp))))"

text \<open>Step B. The point of a date: Step A's value when the date has offers, else absent.\<close>

definition localPoint :: "flight list \<Rightarrow> int \<Rightarrow> priceDataPoint" where
  "localPoint flights d =
     (if offersOn flights d = [] then \<lparr>point_date = d, point_price = None, point_count = 0\<rparr>
      else \<lparr>point_date = d, point_price = Some (averagePrice (offersOn flights d)),
            point_count = length (offersOn flights d)\<rparr>)"

definition startBucket :: "(int \<rightharpoonup> bucket) \<Rightarrow> int \<Rightarrow> bucket" where
  "startBucket priceMap d =
     (case priceMap d of Some b \<Rightarrow> b | None \<Rightarrow> \<lparr>bucket_total = Fin 0, bucket_count = 0\<rparr>)"

text \<open>The days of the series, given the departure times of the offers.\<close>

definition seriesDays :: "int list \<Rightarrow> int list" where
  "seriesDays ds =
     map (\<lambda>k. format_date (Min (set ds)) + int k)
       [0..<numDays (Min (set ds)) (addDays (Max (set ds)) 5)]"

text \<open>
  Step C. A point with a price is left alone. For a point without one, a fetch that returns
  a price sets the price to its rounding and the count to 1; a fetch that returns no price,
  or fails, leaves the point as it is.
\<close>

definition gapFilled :: "price_source \<Rightarrow> searchParams \<Rightarrow> priceDataPoint \<Rightarrow> priceDataPoint" where
  "gapFilled source sp pt =
     (if point_price pt = None then
        (case source (origin sp) (destination sp) (point_date pt) (adults sp) of
           Resolved (Some p) \<Rightarrow> pt\<lparr>point_price := Some (Math_round p), point_count := 1\<rparr>
         | Resolved None \<Rightarrow> pt
         | Rejected \<Rightarrow> pt)
      else pt)"

text \<open>The dates without a price, in the order of the series.\<close>

definition gapDates :: "priceDataPoint list \<Rightarrow> int list" where
  "gapDates pts = map point_date (filter (\<lambda>pt. point_price pt = None) pts)"

text \<open>A list cut into consecutive batches of \<open>n\<close>, the last one possibly shorter.\<close>

function batches :: "nat \<Rightarrow> 'a list \<Rightarrow> 'a list list" where
  "batches n xs = (if n = 0 \<or> xs = [] then [] else take n xs # batches n (drop n xs))"
  by pat_completeness auto
termination
  by (relation "measure (\<lambda>(n, xs). length xs)") auto

declare batches.simps [simp del]

text \<open>
  The schedule of the batches: the requests of a batch, the wait for all of them, and a
  pause of 200 ms when another batch follows.
\<close>

fun scheduleOf :: "int list list \<Rightarrow> event list" where
  "scheduleOf [] = []"
| "scheduleOf (b # bs) =
     map Request b @ [AllSettled] @ (if bs = [] then [] else Sleep 200 # scheduleOf bs)"

section \<open>The price of a date, as the specification words it\<close>

text \<open>The minimum of the totals of the offers of an answer, absent when it has none.\<close>

definition priceOf :: "http_response \<Rightarrow> jsnum option" where
  "priceOf resp =
     (case resp of
        Ok (Some fs) \<Rightarrow>
          if fs = [] then None else Some (Math_min (map (\<lambda>fl. parseFloat (total (price fl))) fs))
      | Ok None \<Rightarrow> None
      | HttpError st \<Rightarrow> None
      | NetworkError \<Rightarrow> None)"

text \<open>
  What a call that returns \<open>r\<close> in the state \<open>w'\<close>, started in \<open>w\<close>, has done: it made at most
  \<open>n + 1\<close> offers requests; every request but its last was answered 401; every request
  after the first, and the first too when no token was cached, came with a token request of
  its own; and \<open>r\<close> is the price of the last answer, or absent when no request was made.
\<close>

definition run_ok ::
  "environment \<Rightarrow> world \<Rightarrow> nat \<Rightarrow> jsnum option \<Rightarrow> world \<Rightarrow> bool" where
  "run_ok env w n r w' =
     (offerRequests w \<le> offerRequests w' \<and> offerRequests w' \<le> offerRequests w + Suc n
      \<and> tokenRequests w \<le> tokenRequests w'
      \<and> offerRequests w' + tokenRequests w
            \<le> offerRequests w + tokenRequests w' + (if truthy (accessToken w) then 1 else 0)
      \<and> (\<forall>k. offerRequests w \<le> k \<and> Suc k < offerRequests w' \<longrightarrow> offersEndpoint env k = HttpError 401)
      \<and> r = (if offerRequests w' = offerRequests w then None
              else priceOf (offersEndpoint env (offerRequests w' - 1))))"

section \<open>The shape of the store after the aggregator\<close>

text \<open>
  The store \<open>h0\<close>, then the array of the points, then the points one after the other.
\<close>

definition layout :: "store \<Rightarrow> priceDataPoint list \<Rightarrow> store" where
  "layout h0 pts =
     h0 @ PointArrayCell (map (\<lambda>i. Suc (length h0 + i)) [0..<length pts]) # map PointCell pts"

text \<open>The pair of object and index that \<open>datesToFetch_store\<close> holds for an entry of \<open>datesToFetch\<close>.\<close>

definition itemRef :: "store \<Rightarrow> priceDataPoint \<times> nat \<Rightarrow> ref \<times> nat" where
  "itemRef h0 item = (Suc (length h0 + snd item), snd item)"

section \<open>Sample data\<close>

text \<open>An offer of one itinerary with one non-stop segment: its id, total and departure.\<close>

definition sampleFlight :: "string \<Rightarrow> string \<Rightarrow> iso_time \<Rightarrow> flight" where
  "sampleFlight i p t =
     \<lparr>flight_id = i, price = \<lparr>total = p, currency = ''USD''\<rparr>,
      itineraries =
        [\<lparr>duration = ''PT6H'',
          segments =
            [\<lparr>departure = \<lparr>iataCode = ''JFK'', at_time = t\<rparr>,
              arrival = \<lparr>iataCode = ''LAX'', at_time = t\<rparr>,
              carrierCode = ''AA'', number = ''100'', aircraft = \<lparr>code = ''321''\<rparr>,
              segment_duration = ''PT6H'', numberOfStops = Fin 0\<rparr>]\<rparr>],
      numberOfBookableSeats = 4, validatingAirlineCodes = [''AA'']\<rparr>"

text \<open>An offer whose total does not parse, and a filter with a ceiling below every price.\<close>

definition nanFlight :: flight where
  "nanFlight = sampleFlight ''F1'' ''abc'' (Some 1717200000000)"

definition lowCeiling :: filters where
  "lowCeiling = \<lparr>stops = Some (Fin 0), maxPrice = Some (Fin (- 1000)), airlines = [''AA'']\<rparr>"

text \<open>
  The offers of 2024-06-01 at 00:00 for 100 and at 10:00 for 200, and of 2024-06-03 at
  00:00 for 150; a source that knows 120 for 2024-06-02, nothing for 2024-06-04 and fails
  for every other date.
\<close>

definition scenarioFlights :: "flight list" where
  "scenarioFlights =
     [sampleFlight ''A'' ''100'' (Some 1717200000000),
      sampleFlight ''B'' ''200'' (Some 1717236000000),
      sampleFlight ''C'' ''150'' (Some 1717372800000)]"

definition scenarioParams :: searchParams where
  "scenarioParams = \<lparr>origin = ''JFK'', destination = ''LAX'', departureDate = ''2024-06-01'',
                      returnDate = None, adults = 1\<rparr>"

definition scenarioSource :: price_source where
  "scenarioSource orig dest d n =
     (if d = 19876 then Resolved (Some (Fin 120))
      else if d = 19878 then Resolved None
      else Rejected)"

text \<open>The local series of these offers: 2024-06-01 to 2024-06-08.\<close>

definition scenarioBase :: "priceDataPoint list" where
  "scenarioBase =
     [\<lparr>point_date = 19875, point_price = Some (Fin 150), point_count = 2\<rparr>,
      \<lparr>point_date = 19876, point_price = None, point_count = 0\<rparr>,
      \<lparr>point_date = 19877, point_price = Some (Fin 150), point_count = 1\<rparr>,
      \<lparr>point_date = 19878, point_price = None, point_count = 0\<rparr>,
      \<lparr>point_date = 19879, point_price = None, point_count = 0\<rparr>,
      \<lparr>point_date = 19880, point_price = None, point_count = 0\<rparr>,
      \<lparr>point_date = 19881, point_price = None, point_count = 0\<rparr>,
      \<lparr>point_date = 19882, point_price = None, point_count = 0\<rparr>]"

text \<open>Two offers: one departs on 2024-06-01 at 23:00, the other on 2024-06-03 at 01:00.\<close>

definition lateFlights :: "flight list" where
  "lateFlights =
     [sampleFlight ''A'' ''100'' (Some 1717282800000),
      sampleFlight ''B'' ''150'' (Some 1717376400000)]"

text \<open>
  A source with credentials and a token endpoint that always grants a token for half an
  hour, whose clock stands still; no token is cached at first.
\<close>

definition grantingEnv :: "(nat \<Rightarrow> http_response) \<Rightarrow> environment" where
  "grantingEnv answers =
     \<lparr>credentials = True, clock = (\<lambda>k. 0),
      tokenEndpoint = (\<lambda>k. TokenGranted (Some ''token'') 1800),
      offersEndpoint = answers\<rparr>"



text \<open>The state before the first search, and a search from JFK to LAX.\<close>

definition initialState :: appState where
  "initialState =
     \<lparr>app_flights = [], app_loading = False, app_error = None, app_hasSearched = False,
      app_searchParams = None, app_priceData = [], app_loadingPrices = False,
      app_filters = \<lparr>stops = None, maxPrice = None, airlines = []\<rparr>\<rparr>"

definition engineMessage :: "js_error \<Rightarrow> string" where
  "engineMessage e = (case e of TypeError \<Rightarrow> ''TypeError'' | RangeError \<Rightarrow> ''Invalid time value'')"

text \<open>The store that holds the three offers of the scenario and their array.\<close>

definition scenarioStore :: store where
  "scenarioStore = map FlightCell scenarioFlights @ [FlightArrayCell [0, 1, 2]]"

section \<open>Properties of the number model\<close>

lemma js_max2_assoc: "js_max2 (js_max2 a b) c = js_max2 a (js_max2 b c)"
  by (cases a; cases b; cases c) auto

lemma js_max2_NegInf [simp]: "js_max2 NegInf a = a" "js_max2 a NegInf = a"
  by (cases a; simp)+

lemma Math_max_append: "Math_max (xs @ ys) = js_max2 (Math_max xs) (Math_max ys)"
  by (induction xs) (simp_all add: js_max2_assoc)

lemma Math_max_concat: "Math_max (map Math_max xss) = Math_max (concat xss)"
  by (induction xss) (simp_all add: Math_max_append)

lemma js_lt_NaN [simp]: "js_lt a NaN = False"
  by (cases a) simp_all

lemma js_le_iff_not_gt: "a \<noteq> NaN \<Longrightarrow> b \<noteq> NaN \<Longrightarrow> js_le a b = (\<not> js_gt a b)"
  by (cases a; cases b) (auto simp: js_le_def js_gt_def js_strict_eq_def)

lemma parseFloat_abc: "parseFloat ''abc'' = NaN"
  by (simp add: parseFloat_def unsignedLiteral_def isWhiteSpace_def isDigit_def startsWith_def)

section \<open>The filter\<close>

lemma nested_max_stops:
  "Math_max (map (\<lambda>it. Math_max (map numberOfStops (segments it))) (itineraries fl))
     = Math_max (allStops fl)"
  using Math_max_concat [of "map (\<lambda>it. map numberOfStops (segments it)) (itineraries fl)"]
  by (simp add: allStops_def map_concat comp_def)

lemma keepFlight_predicates:
  "keepFlight fs fl = (stopsPredicate fs fl \<and> pricePredicate fs fl \<and> airlinesPredicate fs fl)"
  by (auto simp: keepFlight_def stopsPredicate_def pricePredicate_def airlinesPredicate_def
        nested_max_stops list_ex_iff split: option.splits)

text \<open>
  C5. With the no-constraint specification (no stop count, no price ceiling, no airline)
  \<open>filterFlights\<close> is the identity: the offers come back unchanged, in order and in
  number.
\<close>

theorem filterFlights_noConstraint:
  "filterFlights flights noConstraint = flights"
  by (simp add: filterFlights_def keepFlight_def noConstraint_def)

lemma pricePredicate_stated_iff:
  "parseFloat (total (price fl)) \<noteq> NaN \<Longrightarrow> maxPrice fs \<noteq> Some NaN \<Longrightarrow>
     pricePredicate_stated fs fl = pricePredicate fs fl"
  by (auto simp: pricePredicate_stated_def pricePredicate_def js_le_iff_not_gt split: option.splits)

lemma maxPrice_lowCeiling: "maxPrice lowCeiling = Some (Fin (- 1000))"
  by (simp add: lowCeiling_def)

lemma parseFloat_nanFlight: "parseFloat (total (price nanFlight)) = NaN"
  by (simp add: nanFlight_def sampleFlight_def parseFloat_abc)

lemma stops_nanFlight: "stopsPredicate lowCeiling nanFlight"
  by (simp add: stopsPredicate_def lowCeiling_def nanFlight_def sampleFlight_def allStops_def
        js_strict_eq_def)

lemma airlines_nanFlight: "airlinesPredicate lowCeiling nanFlight"
  by (simp add: airlinesPredicate_def lowCeiling_def nanFlight_def sampleFlight_def)

text \<open>
  C4, as stated, fails: with the price predicate "the total is at most the ceiling", an
  offer whose total does not parse would be dropped by a ceiling of 100; \<open>filterFlights\<close>
  keeps it.
\<close>

theorem filterFlights_stated_counterexample:
  "filterFlights [nanFlight] \<lparr>stops = None, maxPrice = Some (Fin 100), airlines = []\<rparr>
     \<noteq> filter_stated [nanFlight] \<lparr>stops = None, maxPrice = Some (Fin 100), airlines = []\<rparr>"
  by (simp add: filterFlights_def keepFlight_def filter_stated_def stopsPredicate_def
        pricePredicate_stated_def airlinesPredicate_def parseFloat_nanFlight js_gt_def js_le_def
        js_strict_eq_def)

text \<open>
  C4, amended. \<open>filterFlights\<close> returns the order-preserving subsequence of the offers
  for which all three predicates hold: the maximum stop count over all segments of all
  itineraries is the one asked for, when one is asked for; the total is not above the
  ceiling, when there is a ceiling (a total that does not parse is not above any ceiling);
  one of the validating airline codes is among the airlines asked for, when some are. No
  offer is duplicated or changed.
\<close>

theorem filterFlights_predicates:
  "filterFlights flights fs
     = filter (\<lambda>fl. stopsPredicate fs fl \<and> pricePredicate fs fl \<and> airlinesPredicate fs fl) flights
   \<and> subseq (filterFlights flights fs) flights"
proof -
  have "keepFlight fs = (\<lambda>fl. stopsPredicate fs fl \<and> pricePredicate fs fl \<and> airlinesPredicate fs fl)"
    by (rule ext) (rule keepFlight_predicates)
  then show ?thesis
    by (simp add: filterFlights_def)
qed

theorem filterFlights_predicates_witness:
  "filterFlights [nanFlight] lowCeiling = [nanFlight]"
  using filterFlights_predicates [of "[nanFlight]" lowCeiling]
  by (simp add: stops_nanFlight airlines_nanFlight pricePredicate_def maxPrice_lowCeiling
        parseFloat_nanFlight js_gt_def)

text \<open>
  C10. When a price ceiling is set and the total of an offer does not parse
  (\<open>parseFloat\<close> gives \<open>NaN\<close>), the comparison of the total with the ceiling is false,
  so the price guard never drops the offer: it is kept exactly when the stops and the
  airline predicates hold, however low the ceiling.
\<close>

theorem filterFlights_unparsed_price:
  "parseFloat (total (price fl)) = NaN \<Longrightarrow> maxPrice fs = Some m \<Longrightarrow>
     \<not> js_gt (parseFloat (total (price fl))) m
     \<and> keepFlight fs fl = (stopsPredicate fs fl \<and> airlinesPredicate fs fl)
     \<and> (fl \<in> set flights \<and> stopsPredicate fs fl \<and> airlinesPredicate fs fl
          \<longrightarrow> fl \<in> set (filterFlights flights fs))"
  by (simp add: keepFlight_predicates filterFlights_def pricePredicate_def js_gt_def)

theorem filterFlights_unparsed_price_witness:
  "parseFloat (total (price nanFlight)) = NaN
   \<and> maxPrice lowCeiling = Some (Fin (- 1000))
   \<and> nanFlight \<in> set (filterFlights [nanFlight] lowCeiling)"
  using filterFlights_unparsed_price [OF parseFloat_nanFlight maxPrice_lowCeiling, of "[nanFlight]"]
  by (simp add: parseFloat_nanFlight maxPrice_lowCeiling stops_nanFlight airlines_nanFlight)

section \<open>The aggregator: the local series\<close>

lemma MS_PER_DAY_pos: "0 < MS_PER_DAY"
  by (simp add: MS_PER_DAY_def)

lemma format_date_addDays: "format_date (addDays d n) = format_date d + n"
  using MS_PER_DAY_pos by (simp add: format_date_def addDays_def)

lemma numDays_step:
  assumes "c \<le> e"
  shows "numDays c e = Suc (numDays (addDays c 1) e)"
proof (cases "addDays c 1 \<le> e")
  case True
  then have nonneg: "0 \<le> e - c - MS_PER_DAY"
    by (simp add: addDays_def)
  have "(e - c) div MS_PER_DAY = ((e - c - MS_PER_DAY) + MS_PER_DAY) div MS_PER_DAY"
    by simp
  also have "\<dots> = (e - c - MS_PER_DAY) div MS_PER_DAY + 1"
    using MS_PER_DAY_pos div_add_self2 [of MS_PER_DAY "e - c - MS_PER_DAY"] by simp
  finally have "(e - c) div MS_PER_DAY = (e - c - MS_PER_DAY) div MS_PER_DAY + 1" .
  moreover have "0 \<le> (e - c - MS_PER_DAY) div MS_PER_DAY"
    using nonneg MS_PER_DAY_pos by (simp add: pos_imp_zdiv_nonneg_iff)
  moreover have "(e - addDays c 1) div MS_PER_DAY = (e - c - MS_PER_DAY) div MS_PER_DAY"
    by (simp add: addDays_def algebra_simps)
  ultimately show ?thesis
    using assms True by (simp add: numDays_def nat_add_distrib)
next
  case False
  then have "e - c < MS_PER_DAY"
    by (simp add: addDays_def)
  then have "(e - c) div MS_PER_DAY = 0"
    using assms by simp
  then show ?thesis
    using assms False by (simp add: numDays_def)
qed

lemma buildDates_eq:
  "buildDates priceMap c e acc
     = acc @ map (\<lambda>k. dataPointFor priceMap (format_date c + int k)) [0..<numDays c e]"
proof (induction priceMap c e acc rule: buildDates.induct)
  case (1 priceMap c e acc)
  show ?case
  proof (cases "c \<le> e")
    case True
    have "map (\<lambda>k. dataPointFor priceMap (format_date c + int k)) [0..<Suc (numDays (addDays c 1) e)]
          = dataPointFor priceMap (format_date c)
            # map (\<lambda>k. dataPointFor priceMap (format_date (addDays c 1) + int k)) [0..<numDays (addDays c 1) e]"
      by (simp add: upt_conv_Cons map_Suc_upt [symmetric] format_date_addDays add.assoc del: upt_Suc)
    then show ?thesis
      using True "1.IH" [OF True] numDays_step [OF True]
      by (subst buildDates.simps) simp
  next
    case False
    then show ?thesis
      by (subst buildDates.simps) (simp add: numDays_def)
  qed
qed



lemma groupPrices_Inr:
  "groupPrices flights priceMap = Inr priceMap' \<Longrightarrow>
   priceMap' d =
     (if offersOn flights d = [] then priceMap d
      else Some \<lparr>bucket_total = foldl js_add (bucket_total (startBucket priceMap d))
                                 (map (\<lambda>fl. parseFloat (total (price fl))) (offersOn flights d)),
                 bucket_count = bucket_count (startBucket priceMap d) + length (offersOn flights d)\<rparr>)"
proof (induction flights arbitrary: priceMap)
  case Nil
  then show ?case by (simp add: offersOn_def)
next
  case (Cons fl rest)
  from Cons.prems obtain date where day: "departureDay fl = Inr date"
    by (auto simp: Let_def split: sum.splits)
  define b1 where "b1 = \<lparr>bucket_total = js_add (bucket_total (startBucket priceMap date)) (parseFloat (total (price fl))),
                          bucket_count = bucket_count (startBucket priceMap date) + 1\<rparr>"
  from Cons.prems day have rest: "groupPrices rest (priceMap(date \<mapsto> b1)) = Inr priceMap'"
    by (simp add: Let_def b1_def startBucket_def)
  note IH = Cons.IH [OF rest]
  show ?case
  proof (cases "d = date")
    case True
    then have "offersOn (fl # rest) d = fl # offersOn rest d"
      using day by (simp add: offersOn_def)
    moreover have "startBucket (priceMap(date \<mapsto> b1)) d = b1"
      using True by (simp add: startBucket_def)
    then have "priceMap' d =
        (if offersOn rest d = [] then Some b1
         else Some \<lparr>bucket_total = foldl js_add (bucket_total b1)
                                     (map (\<lambda>fl. parseFloat (total (price fl))) (offersOn rest d)),
                    bucket_count = bucket_count b1 + length (offersOn rest d)\<rparr>)"
      using IH True by simp
    ultimately show ?thesis
      using True by (simp add: b1_def)
  next
    case False
    then have "offersOn (fl # rest) d = offersOn rest d"
      using day by (auto simp: offersOn_def)
    moreover have "startBucket (priceMap(date \<mapsto> b1)) d = startBucket priceMap d"
      using False by (simp add: startBucket_def)
    ultimately show ?thesis
      using IH False by simp
  qed
qed

lemma dataPointFor_grouped:
  assumes "groupPrices flights Map.empty = Inr priceMap"
  shows "dataPointFor priceMap d = localPoint flights d"
  using groupPrices_Inr [OF assms, of d]
  by (simp add: dataPointFor_def localPoint_def averagePrice_def js_sum_def startBucket_def)

lemma flightDates_Inr:
  "flightDates flights = Inr ds \<Longrightarrow> list_all2 (\<lambda>fl d. departureTime fl = Inr d) flights ds"
  by (induction flights arbitrary: ds) (auto split: sum.splits)

lemma groupPrices_defined:
  "flightDates flights = Inr ds \<Longrightarrow> \<exists>priceMap'. groupPrices flights priceMap = Inr priceMap'"
proof (induction flights arbitrary: priceMap ds)
  case Nil
  then show ?case by simp
next
  case (Cons fl rest)
  then show ?case
    by (auto simp: departureDay_def Let_def split: sum.splits)
qed

lemma flightDates_defined:
  "groupPrices flights priceMap = Inr priceMap' \<Longrightarrow> \<exists>ds. flightDates flights = Inr ds"
proof (induction flights arbitrary: priceMap)
  case Nil
  then show ?case by simp
next
  case (Cons fl rest)
  from Cons.prems obtain date where day: "departureDay fl = Inr date"
    by (auto simp: Let_def split: sum.splits)
  then obtain d where d: "departureTime fl = Inr d"
    by (auto simp: departureDay_def split: sum.splits)
  from Cons.prems day obtain pm1 where "groupPrices rest pm1 = Inr priceMap'"
    by (auto simp: Let_def)
  from Cons.IH [OF this] obtain ds where "flightDates rest = Inr ds" ..
  with d show ?case by simp
qed

lemma extractPriceData_None:
  assumes "flights \<noteq> []" and "flightDates flights = Inr ds"
  shows "extractPriceData source flights None
           = Inr (map (localPoint flights) (seriesDays ds), [])"
proof -
  from groupPrices_defined [OF assms(2)]
  obtain priceMap where pm: "groupPrices flights Map.empty = Inr priceMap" by blast
  have "buildDates priceMap (Min (set ds)) (addDays (Max (set ds)) 5) []
          = map (localPoint flights) (seriesDays ds)"
    by (simp add: buildDates_eq seriesDays_def dataPointFor_grouped [OF pm] comp_def)
  then show ?thesis
    using assms pm by (simp add: extractPriceData_def)
qed

lemma batches_Nil [simp]: "batches n [] = []"
  using batches.simps [of n "[]"] by simp

lemma batches_Cons:
  "0 < n \<Longrightarrow> xs \<noteq> [] \<Longrightarrow> batches n xs = take n xs # batches n (drop n xs)"
  using batches.simps [of n xs] by simp

lemma batches_eq_Nil: "0 < n \<Longrightarrow> (batches n xs = []) = (xs = [])"
  using batches.simps [of n xs] by auto

lemma fetchLoop_eq:
  "fetchLoop source sp toFetch i (allDates, trace)
     = (foldl (fetchOne source sp) allDates (drop i toFetch),
        trace @ scheduleOf (batches BATCH_SIZE (map (\<lambda>item. point_date (fst item)) (drop i toFetch))))"
proof (induction source sp toFetch i "(allDates, trace)" arbitrary: allDates trace rule: fetchLoop.induct)
  case (1 source sp toFetch i allDates trace)
  let ?d = "\<lambda>item. point_date (fst item)"
  show ?case
  proof (cases "i < length toFetch")
    case True
    define batch where "batch = slice toFetch i (i + BATCH_SIZE)"
    define rest where "rest = drop (i + BATCH_SIZE) toFetch"
    have pos: "0 < BATCH_SIZE"
      by (simp add: BATCH_SIZE_def)
    have batch: "batch = take BATCH_SIZE (drop i toFetch)"
      by (simp add: batch_def slice_def)
    have rest: "rest = drop BATCH_SIZE (drop i toFetch)"
      by (simp add: rest_def add.commute)
    have split: "drop i toFetch = batch @ rest"
      by (simp only: batch rest append_take_drop_id)
    have ne: "map ?d (drop i toFetch) \<noteq> []"
      using True by simp
    have more: "(batches BATCH_SIZE (map ?d rest) = []) = (\<not> i + BATCH_SIZE < length toFetch)"
      using batches_eq_Nil [OF pos, of "map ?d rest"] by (auto simp: rest_def)
    have "batches BATCH_SIZE (map ?d (drop i toFetch))
            = map ?d batch # batches BATCH_SIZE (map ?d rest)"
      using batches_Cons [OF pos ne] by (simp only: batch rest take_map drop_map)
    then have sched: "scheduleOf (batches BATCH_SIZE (map ?d (drop i toFetch)))
        = map (\<lambda>item. Request (?d item)) batch @ [AllSettled]
          @ (if i + BATCH_SIZE < length toFetch then [Sleep 200] else [])
          @ scheduleOf (batches BATCH_SIZE (map ?d rest))"
      using more by (auto simp: comp_def)
    have "fetchLoop source sp toFetch i (allDates, trace)
            = fetchLoop source sp toFetch (i + BATCH_SIZE)
                (foldl (fetchOne source sp) allDates batch,
                 trace @ map (\<lambda>item. Request (?d item)) batch @ [AllSettled]
                   @ (if i + BATCH_SIZE < length toFetch then [Sleep 200] else []))"
      using True by (subst fetchLoop.simps) (simp add: Let_def batch_def)
    also have "\<dots> = (foldl (fetchOne source sp) (foldl (fetchOne source sp) allDates batch) rest,
                 (trace @ map (\<lambda>item. Request (?d item)) batch @ [AllSettled]
                   @ (if i + BATCH_SIZE < length toFetch then [Sleep 200] else []))
                 @ scheduleOf (batches BATCH_SIZE (map ?d rest)))"
      using "1.hyps" [OF True batch_def refl refl] by (simp only: rest_def)
    finally have "fetchLoop source sp toFetch i (allDates, trace)
        = (foldl (fetchOne source sp) allDates (batch @ rest),
           trace @ scheduleOf (batches BATCH_SIZE (map ?d (drop i toFetch))))"
      by (simp only: sched foldl_append append_assoc)
    then show ?thesis
      by (simp only: split [symmetric])
  next
    case False
    then show ?thesis
      by (subst fetchLoop.simps) simp
  qed
qed

section \<open>The aggregator: gap fill\<close>

lemma fetchOne_length [simp]: "length (fetchOne source sp allDates item) = length allDates"
  by (simp add: fetchOne_def split: fetch_outcome.splits option.splits)

lemma fetchOne_other:
  "j \<noteq> snd item \<Longrightarrow> fetchOne source sp allDates item ! j = allDates ! j"
  by (simp add: fetchOne_def split: fetch_outcome.splits option.splits)

lemma fetchOne_same:
  "snd item < length allDates \<Longrightarrow> point_date (fst item) = point_date (allDates ! snd item) \<Longrightarrow>
   point_price (allDates ! snd item) = None \<Longrightarrow>
   fetchOne source sp allDates item ! snd item = gapFilled source sp (allDates ! snd item)"
  by (simp add: fetchOne_def gapFilled_def split: fetch_outcome.splits option.splits)

lemma foldl_fetchOne:
  assumes "distinct (map snd items)"
    and "\<And>item. item \<in> set items \<Longrightarrow>
           snd item < length allDates \<and> point_date (fst item) = point_date (allDates ! snd item)
           \<and> point_price (allDates ! snd item) = None"
  shows "length (foldl (fetchOne source sp) allDates items) = length allDates
         \<and> (\<forall>j < length allDates.
               foldl (fetchOne source sp) allDates items ! j
                 = (if j \<in> snd ` set items then gapFilled source sp (allDates ! j) else allDates ! j))"
  using assms
proof (induction items arbitrary: allDates)
  case Nil
  then show ?case by simp
next
  case (Cons item rest)
  define ad1 where "ad1 = fetchOne source sp allDates item"
  have item: "snd item < length allDates" "point_date (fst item) = point_date (allDates ! snd item)"
    "point_price (allDates ! snd item) = None"
    using Cons.prems(2) [of item] by simp_all
  have fresh: "snd item \<notin> snd ` set rest" and dist: "distinct (map snd rest)"
    using Cons.prems(1) by auto
  have len: "length ad1 = length allDates"
    by (simp add: ad1_def)
  have same: "ad1 ! snd item = gapFilled source sp (allDates ! snd item)"
    unfolding ad1_def using item by (rule fetchOne_same)
  have other: "\<And>j. j \<noteq> snd item \<Longrightarrow> ad1 ! j = allDates ! j"
    unfolding ad1_def by (rule fetchOne_other)
  have pre: "\<And>it. it \<in> set rest \<Longrightarrow>
           snd it < length ad1 \<and> point_date (fst it) = point_date (ad1 ! snd it)
           \<and> point_price (ad1 ! snd it) = None"
  proof -
    fix it assume it: "it \<in> set rest"
    then have "snd it \<in> snd ` set rest" by (rule imageI)
    then have "snd it \<noteq> snd item" using fresh by metis
    then show "snd it < length ad1 \<and> point_date (fst it) = point_date (ad1 ! snd it)
           \<and> point_price (ad1 ! snd it) = None"
      using Cons.prems(2) [of it] it by (simp add: len other)
  qed
  note IH = Cons.IH [OF dist pre, simplified len]
  show ?case
  proof (intro conjI allI impI)
    show "length (foldl (fetchOne source sp) allDates (item # rest)) = length allDates"
      using IH by (simp add: ad1_def)
  next
    fix j assume j: "j < length allDates"
    show "foldl (fetchOne source sp) allDates (item # rest) ! j
            = (if j \<in> snd ` set (item # rest) then gapFilled source sp (allDates ! j) else allDates ! j)"
    proof (cases "j = snd item")
      case True
      then show ?thesis
        using IH j fresh same by (simp add: ad1_def [symmetric])
    next
      case False
      then show ?thesis
        using IH j other [OF False] by (simp add: ad1_def [symmetric])
    qed
  qed
qed

text \<open>
  The promises of a batch may settle in any order: each writes its own entry, so the order
  in which the items are treated does not matter.
\<close>

lemma foldl_fetchOne_order:
  assumes "distinct (map snd items)" and "distinct (map snd items')" and "set items' = set items"
    and "\<And>item. item \<in> set items \<Longrightarrow>
           snd item < length allDates \<and> point_date (fst item) = point_date (allDates ! snd item)
           \<and> point_price (allDates ! snd item) = None"
  shows "foldl (fetchOne source sp) allDates items' = foldl (fetchOne source sp) allDates items"
proof -
  have pre': "\<And>item. item \<in> set items' \<Longrightarrow>
           snd item < length allDates \<and> point_date (fst item) = point_date (allDates ! snd item)
           \<and> point_price (allDates ! snd item) = None"
    using assms(3,4) by simp
  note A = foldl_fetchOne [OF assms(1) assms(4), where source = source and sp = sp]
  note B = foldl_fetchOne [OF assms(2) pre', where source = source and sp = sp]
  show ?thesis
  proof (rule nth_equalityI)
    show "length (foldl (fetchOne source sp) allDates items')
            = length (foldl (fetchOne source sp) allDates items)"
      using A B by simp
  next
    fix j assume "j < length (foldl (fetchOne source sp) allDates items')"
    then have "j < length allDates" using B by simp
    then show "foldl (fetchOne source sp) allDates items' ! j
                 = foldl (fetchOne source sp) allDates items ! j"
      using A B assms(3) by simp
  qed
qed

lemma gapFilled_priced: "point_price pt \<noteq> None \<Longrightarrow> gapFilled source sp pt = pt"
  by (auto simp: gapFilled_def)

lemma datesToFetch_set:
  "item \<in> set (datesToFetch allDates) =
     (snd item < length allDates \<and> fst item = allDates ! snd item \<and> point_price (fst item) = None)"
  by (cases item) (auto simp: datesToFetch_def set_zip)

lemma datesToFetch_distinct: "distinct (map snd (datesToFetch allDates))"
  unfolding datesToFetch_def
  by (rule distinct_map_filter) simp

lemma foldl_datesToFetch:
  "foldl (fetchOne source sp) allDates (datesToFetch allDates) = map (gapFilled source sp) allDates"
proof -
  have pre: "\<And>item. item \<in> set (datesToFetch allDates) \<Longrightarrow>
           snd item < length allDates \<and> point_date (fst item) = point_date (allDates ! snd item)
           \<and> point_price (allDates ! snd item) = None"
    by (auto simp: datesToFetch_set)
  note F = foldl_fetchOne [OF datesToFetch_distinct pre, of allDates source sp]
  show ?thesis
  proof (rule nth_equalityI)
    show "length (foldl (fetchOne source sp) allDates (datesToFetch allDates))
            = length (map (gapFilled source sp) allDates)"
      using F by simp
  next
    fix j assume "j < length (foldl (fetchOne source sp) allDates (datesToFetch allDates))"
    then have j: "j < length allDates" using F by simp
    have "(j \<in> snd ` set (datesToFetch allDates)) = (point_price (allDates ! j) = None)"
    proof
      assume "j \<in> snd ` set (datesToFetch allDates)"
      then obtain item where "item \<in> set (datesToFetch allDates)" "snd item = j"
        by auto
      then show "point_price (allDates ! j) = None"
        by (auto simp: datesToFetch_set)
    next
      assume "point_price (allDates ! j) = None"
      then have "(allDates ! j, j) \<in> set (datesToFetch allDates)"
        using j by (simp add: datesToFetch_set)
      then show "j \<in> snd ` set (datesToFetch allDates)"
        by force
    qed
    then show "foldl (fetchOne source sp) allDates (datesToFetch allDates) ! j
                 = map (gapFilled source sp) allDates ! j"
      using F j by (simp add: gapFilled_priced)
  qed
qed

lemma map_date_datesToFetch:
  "map (\<lambda>item. point_date (fst item)) (datesToFetch allDates) = gapDates allDates"
proof -
  have "filter (\<lambda>pt. point_price pt = None) (map fst (zip allDates [0..<length allDates]))
          = map fst (filter ((\<lambda>pt. point_price pt = None) \<circ> fst) (zip allDates [0..<length allDates]))"
    by (rule filter_map)
  moreover have "map fst (zip allDates [0..<length allDates]) = allDates"
    by simp
  ultimately have "map fst (datesToFetch allDates) = filter (\<lambda>pt. point_price pt = None) allDates"
    by (simp add: datesToFetch_def comp_def case_prod_unfold)
  then show ?thesis
    by (simp add: gapDates_def flip: map_map [of point_date fst, unfolded comp_def])
qed

lemma extractPriceData_Some:
  assumes "extractPriceData source flights None = Inr (base, tr0)" and "flights \<noteq> []"
  shows "extractPriceData source flights (Some sp)
           = Inr (map (gapFilled source sp) base, scheduleOf (batches BATCH_SIZE (gapDates base)))"
  using assms
  by (auto simp: extractPriceData_def Let_def fetchLoop_eq foldl_datesToFetch map_date_datesToFetch
      split: sum.splits)

lemma extractPriceData_Inl:
  "extractPriceData source flights (Some sp) = Inl e \<longleftrightarrow> extractPriceData source' flights None = Inl e"
  by (auto simp: extractPriceData_def Let_def fetchLoop_eq split: sum.splits)

section \<open>The aggregator: the range of dates\<close>

lemma extractPriceData_empty: "extractPriceData source [] ctx = Inr ([], [])"
  by (simp add: extractPriceData_def)

lemma extractPriceData_context:
  assumes "extractPriceData source flights None = Inr (base, tr0)"
  shows "extractPriceData source flights (Some sp)
           = Inr (map (gapFilled source sp) base, scheduleOf (batches BATCH_SIZE (gapDates base)))"
proof (cases "flights = []")
  case True
  then show ?thesis
    using assms by (simp add: extractPriceData_empty gapDates_def)
next
  case False
  with assms show ?thesis by (rule extractPriceData_Some)
qed

lemma extractPriceData_flightDates:
  assumes "extractPriceData source flights ctx = Inr r" and "flights \<noteq> []"
  shows "\<exists>ds. flightDates flights = Inr ds"
  using assms by (auto simp: extractPriceData_def split: sum.splits)

lemma flightDates_length: "flightDates flights = Inr ds \<Longrightarrow> length ds = length flights"
  by (induction flights arbitrary: ds) (auto split: sum.splits)


lemma format_date_mono: "a \<le> b \<Longrightarrow> format_date a \<le> format_date b"
  using MS_PER_DAY_pos by (simp add: format_date_def zdiv_mono1)

lemma numDays_span:
  assumes "c \<le> l"
  shows "numDays c (addDays l 5)
           = nat (format_date l - format_date c)
             + (if c mod MS_PER_DAY \<le> l mod MS_PER_DAY then 6 else 5)"
proof -
  let ?D = MS_PER_DAY
  have pos: "0 < ?D" by (rule MS_PER_DAY_pos)
  have q: "format_date c \<le> format_date l"
    using assms by (rule format_date_mono)
  have c: "c = ?D * format_date c + c mod ?D" and l: "l = ?D * format_date l + l mod ?D"
    by (simp_all add: format_date_def)
  have rc: "0 \<le> c mod ?D" "c mod ?D < ?D" and rl: "0 \<le> l mod ?D" "l mod ?D < ?D"
    using pos by simp_all
  have le: "c \<le> addDays l 5"
    using assms pos by (simp add: addDays_def)
  have diff: "addDays l 5 - c = (l mod ?D - c mod ?D) + ?D * (format_date l - format_date c + 5)"
    using c l by (simp add: addDays_def algebra_simps)
  have "(addDays l 5 - c) div ?D
          = format_date l - format_date c + 5 + (l mod ?D - c mod ?D) div ?D"
    using pos by (simp only: diff) simp
  moreover have "(l mod ?D - c mod ?D) div ?D = (if c mod ?D \<le> l mod ?D then 0 else - 1)"
  proof (cases "c mod ?D \<le> l mod ?D")
    case True
    then have "0 \<le> l mod ?D - c mod ?D" and "l mod ?D - c mod ?D < ?D"
      using rc rl by linarith+
    then have "(l mod ?D - c mod ?D) div ?D = 0"
      by (rule div_pos_pos_trivial)
    with True show ?thesis by simp
  next
    case False
    then have "0 \<le> l mod ?D - c mod ?D + ?D" and "l mod ?D - c mod ?D + ?D < ?D"
      using rc rl by linarith+
    moreover have "l mod ?D - c mod ?D = ?D * (- 1) + (l mod ?D - c mod ?D + ?D)"
      by simp
    ultimately have "(l mod ?D - c mod ?D) div ?D = - 1"
      by (rule int_div_pos_eq [rotated])
    with False show ?thesis by simp
  qed
  ultimately have "(addDays l 5 - c) div ?D
      = format_date l - format_date c + (if c mod ?D \<le> l mod ?D then 5 else 4)"
    by simp
  then show ?thesis
    using le q by (simp add: numDays_def nat_add_distrib)
qed

lemma point_date_localPoint [simp]: "point_date (localPoint flights d) = d"
  by (simp add: localPoint_def)

lemma point_date_gapFilled [simp]: "point_date (gapFilled source sp pt) = point_date pt"
  by (simp add: gapFilled_def split: fetch_outcome.splits option.splits)

lemma extractPriceData_dates:
  assumes "extractPriceData source flights ctx = Inr (pts, tr)" and "flights \<noteq> []"
    and "flightDates flights = Inr ds"
  shows "map point_date pts = seriesDays ds"
proof (cases ctx)
  case None
  then have "pts = map (localPoint flights) (seriesDays ds)"
    using assms(1) extractPriceData_None [OF assms(2,3), of source] by simp
  then show ?thesis
    by (simp add: comp_def)
next
  case (Some sp)
  then have "pts = map (gapFilled source sp) (map (localPoint flights) (seriesDays ds))"
    using assms(1) extractPriceData_context [OF extractPriceData_None [OF assms(2,3)], of source sp]
    by simp
  then show ?thesis
    by (simp add: comp_def)
qed

lemma seriesDays_length:
  assumes "ds \<noteq> []"
  shows "length (seriesDays ds)
           = nat (format_date (Max (set ds)) - format_date (Min (set ds)))
             + (if Min (set ds) mod MS_PER_DAY \<le> Max (set ds) mod MS_PER_DAY then 6 else 5)"
proof -
  have "Min (set ds) \<le> Max (set ds)"
    using assms by simp
  then show ?thesis
    by (simp add: seriesDays_def numDays_span)
qed

text \<open>No date occurs twice in a series, so a source is asked for a date at most once.\<close>

lemma seriesDays_distinct: "distinct (seriesDays ds)"
  by (simp add: seriesDays_def distinct_map inj_on_def)

lemma extractPriceData_distinct_dates:
  assumes "extractPriceData source flights ctx = Inr (pts, tr)"
  shows "distinct (map point_date pts)"
proof (cases "flights = []")
  case True
  then show ?thesis
    using assms by (simp add: extractPriceData_empty)
next
  case False
  from extractPriceData_flightDates [OF assms False]
  obtain ds where "flightDates flights = Inr ds" ..
  from extractPriceData_dates [OF assms False this] show ?thesis
    by (simp add: seriesDays_distinct)
qed

lemma gapDates_distinct:
  assumes "extractPriceData source flights ctx = Inr (pts, tr)"
  shows "distinct (gapDates pts)"
  unfolding gapDates_def
  using extractPriceData_distinct_dates [OF assms] by (rule distinct_map_filter)

text \<open>
  C1, at an input where it fails. The offers of \<open>lateFlights\<close> depart on 2024-06-01
  (day 19875) at 23:00 and on 2024-06-03 (day 19877) at 01:00. The series should run from
  2024-06-01 to 2024-06-08, that is \<open>(19877 - 19875) + 6 = 8\<close> entries; the function
  returns the seven entries from 2024-06-01 to 2024-06-07. The loop compares the instants
  \<^verbatim>\<open>currentDate <= endDate\<close>, times of day included, and the eighth instant, 2024-06-08
  at 23:00, is after the end, 2024-06-08 at 01:00.
\<close>

theorem extractPriceData_range_short:
  "extractPriceData scenarioSource lateFlights None =
     Inr ([\<lparr>point_date = 19875, point_price = Some (Fin 100), point_count = 1\<rparr>,
           \<lparr>point_date = 19876, point_price = None, point_count = 0\<rparr>,
           \<lparr>point_date = 19877, point_price = Some (Fin 150), point_count = 1\<rparr>,
           \<lparr>point_date = 19878, point_price = None, point_count = 0\<rparr>,
           \<lparr>point_date = 19879, point_price = None, point_count = 0\<rparr>,
           \<lparr>point_date = 19880, point_price = None, point_count = 0\<rparr>,
           \<lparr>point_date = 19881, point_price = None, point_count = 0\<rparr>], [])
   \<and> map departureDay lateFlights = [Inr 19875, Inr 19877]
   \<and> format_date (addDays 1717376400000 5) = 19882"
  by code_simp


lemma scenario_base:
  "extractPriceData scenarioSource scenarioFlights None = Inr (scenarioBase, [])"
  by code_simp






lemma localPoint_count: "point_price (localPoint flights d) = None \<Longrightarrow> point_count (localPoint flights d) = 0"
  by (simp add: localPoint_def split: if_splits)

lemma extractPriceData_base_count:
  assumes "extractPriceData source flights None = Inr (base, tr0)" and "pt \<in> set base"
    and "point_price pt = None"
  shows "point_count pt = 0"
proof (cases "flights = []")
  case True
  then show ?thesis
    using assms by (simp add: extractPriceData_empty)
next
  case False
  from extractPriceData_flightDates [OF assms(1) False]
  obtain ds where "flightDates flights = Inr ds" ..
  from extractPriceData_None [OF False this, of source]
  have "base = map (localPoint flights) (seriesDays ds)"
    using assms(1) by simp
  then show ?thesis
    using assms(2,3) by (auto simp: localPoint_count)
qed

text \<open>
  C3. Let the aggregator return the series \<open>base\<close> without a search context. With a
  context it returns, never an error, the same series with every gap point treated by
  \<open>gapFilled\<close>: a fetch that resolves with a price sets the rounded price and the count 1; a
  fetch that resolves with no price, or rejects, leaves the point as it was, with no price
  and the count 0. The source is arbitrary, so it may reject for any date.
\<close>

theorem extractPriceData_gapfill:
  assumes "extractPriceData source flights None = Inr (base, tr0)"
  shows "\<exists>tr. extractPriceData source flights (Some sp) = Inr (map (gapFilled source sp) base, tr)
              \<and> (\<forall>pt \<in> set base. point_price pt = None \<longrightarrow> point_count pt = 0)"
  using extractPriceData_context [OF assms, of sp] extractPriceData_base_count [OF assms]
  by simp

theorem extractPriceData_gapfill_witness:
  "extractPriceData scenarioSource scenarioFlights None = Inr (scenarioBase, [])
   \<and> (\<exists>tr. extractPriceData scenarioSource scenarioFlights (Some scenarioParams)
        = Inr ([\<lparr>point_date = 19875, point_price = Some (Fin 150), point_count = 2\<rparr>,
                \<lparr>point_date = 19876, point_price = Some (Fin 120), point_count = 1\<rparr>,
                \<lparr>point_date = 19877, point_price = Some (Fin 150), point_count = 1\<rparr>,
                \<lparr>point_date = 19878, point_price = None, point_count = 0\<rparr>,
                \<lparr>point_date = 19879, point_price = None, point_count = 0\<rparr>,
                \<lparr>point_date = 19880, point_price = None, point_count = 0\<rparr>,
                \<lparr>point_date = 19881, point_price = None, point_count = 0\<rparr>,
                \<lparr>point_date = 19882, point_price = None, point_count = 0\<rparr>], tr))"
proof -
  have "map (gapFilled scenarioSource scenarioParams) scenarioBase
      = [\<lparr>point_date = 19875, point_price = Some (Fin 150), point_count = 2\<rparr>,
         \<lparr>point_date = 19876, point_price = Some (Fin 120), point_count = 1\<rparr>,
         \<lparr>point_date = 19877, point_price = Some (Fin 150), point_count = 1\<rparr>,
         \<lparr>point_date = 19878, point_price = None, point_count = 0\<rparr>,
         \<lparr>point_date = 19879, point_price = None, point_count = 0\<rparr>,
         \<lparr>point_date = 19880, point_price = None, point_count = 0\<rparr>,
         \<lparr>point_date = 19881, point_price = None, point_count = 0\<rparr>,
         \<lparr>point_date = 19882, point_price = None, point_count = 0\<rparr>]"
    by code_simp
  then show ?thesis
    using extractPriceData_gapfill [OF scenario_base, of scenarioParams]
    by (auto simp: scenario_base)
qed





section \<open>getPriceForDate\<close>

lemma getAccessToken_counts:
  assumes "getAccessToken env w = (res, w1)"
  shows "offerRequests w1 = offerRequests w"
    and "tokenRequests w \<le> tokenRequests w1"
    and "(\<exists>token. res = Inr token) \<Longrightarrow> \<not> truthy (accessToken w) \<Longrightarrow> tokenRequests w1 = Suc (tokenRequests w)"
    and "\<And>e. res = Inl e \<Longrightarrow> response_status e = None"
  using assms
  by (auto simp: getAccessToken_def Let_def response_status_def
      split: if_splits token_response.splits)

lemma getPriceForDate_try_Inr:
  assumes "getPriceForDate_try env w = (Inr r, w1)"
  shows "offerRequests w1 = Suc (offerRequests w)"
    and "r = priceOf (offersEndpoint env (offerRequests w))"
    and "tokenRequests w \<le> tokenRequests w1"
    and "\<not> truthy (accessToken w) \<Longrightarrow> tokenRequests w1 = Suc (tokenRequests w)"
proof -
  obtain res w0 where tok: "getAccessToken env w = (res, w0)"
    by (cases "getAccessToken env w")
  note c = getAccessToken_counts [OF tok]
  from assms tok obtain token where res: "res = Inr token"
    by (cases res) (auto simp: getPriceForDate_try_def)
  from assms tok res show "offerRequests w1 = Suc (offerRequests w)"
    using c(1) by (auto simp: getPriceForDate_try_def Let_def split: http_response.splits if_splits)
  from assms tok res show "r = priceOf (offersEndpoint env (offerRequests w))"
    using c(1)
    by (auto simp: getPriceForDate_try_def Let_def priceOf_def
        split: http_response.splits if_splits option.splits)
  from assms tok res show "tokenRequests w \<le> tokenRequests w1"
    using c(2) by (auto simp: getPriceForDate_try_def Let_def split: http_response.splits if_splits)
  assume "\<not> truthy (accessToken w)"
  with assms tok res show "tokenRequests w1 = Suc (tokenRequests w)"
    using c(3)
    by (auto simp: getPriceForDate_try_def Let_def split: http_response.splits if_splits)
qed

lemma getPriceForDate_try_Inl:
  assumes "getPriceForDate_try env w = (Inl err, w1)"
  shows "tokenRequests w \<le> tokenRequests w1"
    and "response_status err = None \<Longrightarrow>
           offerRequests w1 = offerRequests w
           \<or> (offerRequests w1 = Suc (offerRequests w)
              \<and> offersEndpoint env (offerRequests w) = NetworkError
              \<and> (\<not> truthy (accessToken w) \<longrightarrow> tokenRequests w1 = Suc (tokenRequests w)))"
    and "\<And>st. response_status err = Some st \<Longrightarrow>
           offerRequests w1 = Suc (offerRequests w)
           \<and> offersEndpoint env (offerRequests w) = HttpError st
           \<and> (\<not> truthy (accessToken w) \<longrightarrow> tokenRequests w1 = Suc (tokenRequests w))"
proof -
  obtain res w0 where tok: "getAccessToken env w = (res, w0)"
    by (cases "getAccessToken env w")
  note c = getAccessToken_counts [OF tok]
  from assms tok show "tokenRequests w \<le> tokenRequests w1"
    using c(2)
    by (cases res)
       (auto simp: getPriceForDate_try_def Let_def split: http_response.splits if_splits)
  {
    assume "response_status err = None"
    with assms tok show "offerRequests w1 = offerRequests w
           \<or> (offerRequests w1 = Suc (offerRequests w)
              \<and> offersEndpoint env (offerRequests w) = NetworkError
              \<and> (\<not> truthy (accessToken w) \<longrightarrow> tokenRequests w1 = Suc (tokenRequests w)))"
      using c(1) c(3)
      by (cases res)
         (auto simp: getPriceForDate_try_def Let_def response_status_def
            split: http_response.splits if_splits)
  }
  {
    fix st assume "response_status err = Some st"
    with assms tok show "offerRequests w1 = Suc (offerRequests w)
           \<and> offersEndpoint env (offerRequests w) = HttpError st
           \<and> (\<not> truthy (accessToken w) \<longrightarrow> tokenRequests w1 = Suc (tokenRequests w))"
      using c(1) c(3) c(4)
      by (cases res)
         (auto simp: getPriceForDate_try_def Let_def response_status_def
            split: http_response.splits if_splits)
  }
qed

lemma priceOf_error [simp]: "priceOf (HttpError st) = None" "priceOf NetworkError = None"
  by (simp_all add: priceOf_def)

lemma getPriceForDate_run:
  "offersEndpoint env (offerRequests w + n) \<noteq> HttpError 401 \<Longrightarrow>
   \<exists>r w'. getPriceForDate (Suc n) env orig dest date a w = Some (Resolved r, w') \<and> run_ok env w n r w'"
proof (induction n arbitrary: w)
  case 0
  obtain res w1 where t: "getPriceForDate_try env w = (res, w1)"
    by (cases "getPriceForDate_try env w")
  show ?case
  proof (cases res)
    case (Inr r)
    note f = getPriceForDate_try_Inr [OF t [unfolded Inr]]
    have "getPriceForDate (Suc 0) env orig dest date a w = Some (Resolved r, w1)"
      using t Inr by simp
    moreover have "run_ok env w 0 r w1"
      using f by (auto simp: run_ok_def)
    ultimately show ?thesis by blast
  next
    case (Inl err)
    note f = getPriceForDate_try_Inl [OF t [unfolded Inl]]
    have not401: "response_status err \<noteq> Some 401"
      using f(3) [of 401] "0.prems" by auto
    have "getPriceForDate (Suc 0) env orig dest date a w = Some (Resolved None, w1)"
      using t Inl not401 by simp
    moreover have "run_ok env w 0 None w1"
    proof (cases "response_status err")
      case None
      then show ?thesis
        using f(1) f(2) by (auto simp: run_ok_def)
    next
      case (Some st)
      then show ?thesis
        using f(1) f(3) [OF Some] by (auto simp: run_ok_def)
    qed
    ultimately show ?thesis by blast
  qed
next
  case (Suc n)
  obtain res w1 where t: "getPriceForDate_try env w = (res, w1)"
    by (cases "getPriceForDate_try env w")
  show ?case
  proof (cases res)
    case (Inr r)
    note f = getPriceForDate_try_Inr [OF t [unfolded Inr]]
    have "getPriceForDate (Suc (Suc n)) env orig dest date a w = Some (Resolved r, w1)"
      using t Inr by simp
    moreover have "run_ok env w (Suc n) r w1"
      using f by (auto simp: run_ok_def)
    ultimately show ?thesis by blast
  next
    case (Inl err)
    note f = getPriceForDate_try_Inl [OF t [unfolded Inl]]
    show ?thesis
    proof (cases "response_status err = Some 401")
      case False
      have "getPriceForDate (Suc (Suc n)) env orig dest date a w = Some (Resolved None, w1)"
        using t Inl False by simp
      moreover have "run_ok env w (Suc n) None w1"
      proof (cases "response_status err")
        case None
        then show ?thesis
          using f(1) f(2) by (auto simp: run_ok_def)
      next
        case (Some st)
        then show ?thesis
          using f(1) f(3) [OF Some] by (auto simp: run_ok_def)
      qed
      ultimately show ?thesis by blast
    next
      case True
      note g = f(3) [OF True]
      define w2 where "w2 = w1\<lparr>accessToken := None\<rparr>"
      have w2: "offerRequests w2 = Suc (offerRequests w)" "tokenRequests w2 = tokenRequests w1"
        "\<not> truthy (accessToken w2)"
        using g by (simp_all add: w2_def truthy_def)
      have "offersEndpoint env (offerRequests w2 + n) \<noteq> HttpError 401"
        using Suc.prems w2(1) by simp
      from Suc.IH [OF this] obtain r w'
        where run: "getPriceForDate (Suc n) env orig dest date a w2 = Some (Resolved r, w')"
          and ok: "run_ok env w2 n r w'"
        by blast
      have "getPriceForDate (Suc (Suc n)) env orig dest date a w = Some (Resolved r, w')"
        using t Inl True run by (simp add: w2_def)
      moreover have "run_ok env w (Suc n) r w'"
      proof -
        have a: "offerRequests w2 \<le> offerRequests w'" "offerRequests w' \<le> offerRequests w2 + Suc n"
          "tokenRequests w2 \<le> tokenRequests w'"
          "offerRequests w' + tokenRequests w2 \<le> offerRequests w2 + tokenRequests w'"
          and b: "\<And>k. offerRequests w2 \<le> k \<Longrightarrow> Suc k < offerRequests w' \<Longrightarrow> offersEndpoint env k = HttpError 401"
          and c: "r = (if offerRequests w' = offerRequests w2 then None
                       else priceOf (offersEndpoint env (offerRequests w' - 1)))"
          using ok w2(3) by (simp_all add: run_ok_def)
        have tok: "offerRequests w' + tokenRequests w
                     \<le> offerRequests w + tokenRequests w' + (if truthy (accessToken w) then 1 else 0)"
          using a f(1) g w2 by (auto split: if_splits)
        have all: "\<forall>k. offerRequests w \<le> k \<and> Suc k < offerRequests w' \<longrightarrow> offersEndpoint env k = HttpError 401"
        proof (intro allI impI)
          fix k assume k: "offerRequests w \<le> k \<and> Suc k < offerRequests w'"
          show "offersEndpoint env k = HttpError 401"
          proof (cases "k = offerRequests w")
            case True
            then show ?thesis using g by simp
          next
            case False
            then have "offerRequests w2 \<le> k" using k w2(1) by simp
            then show ?thesis using b k by simp
          qed
        qed
        have res: "r = (if offerRequests w' = offerRequests w then None
                        else priceOf (offersEndpoint env (offerRequests w' - 1)))"
        proof (cases "offerRequests w' = offerRequests w2")
          case True
          then show ?thesis
            using c g w2(1) by simp
        next
          case False
          then show ?thesis
            using c a(1) w2(1) by simp
        qed
        show ?thesis
          unfolding run_ok_def
          using a f(1) w2 tok all res by (intro conjI) simp_all
      qed
      ultimately show ?thesis by blast
    qed
  qed
qed

text \<open>Once the attempts suffice, more of them change nothing.\<close>

lemma getPriceForDate_more_fuel:
  "getPriceForDate fuel env orig dest date a w = Some x \<Longrightarrow>
   getPriceForDate (fuel + k) env orig dest date a w = Some x"
proof (induction fuel arbitrary: w)
  case 0
  then show ?case by simp
next
  case (Suc fuel)
  then show ?case
    by (auto split: prod.splits sum.splits if_splits)
qed

text \<open>An answer without offers gives \<^verbatim>\<open>null\<close>, whether or not a token could be had.\<close>

lemma getPriceForDate_no_offers:
  assumes "offersEndpoint env (offerRequests w) = Ok None
           \<or> offersEndpoint env (offerRequests w) = Ok (Some [])"
  shows "\<exists>w'. getPriceForDate (Suc fuel) env orig dest date a w = Some (Resolved None, w')"
proof -
  have "offersEndpoint env (offerRequests w + 0) \<noteq> HttpError 401"
    using assms by auto
  from getPriceForDate_run [OF this, of orig dest date a]
  obtain r w' where run: "getPriceForDate (Suc 0) env orig dest date a w = Some (Resolved r, w')"
    and ok: "run_ok env w 0 r w'"
    by blast
  have "offerRequests w' = offerRequests w \<or> offerRequests w' = Suc (offerRequests w)"
    using ok by (auto simp: run_ok_def)
  then have "r = None"
    using ok assms by (auto simp: run_ok_def priceOf_def)
  then have "getPriceForDate (Suc 0 + fuel) env orig dest date a w = Some (Resolved None, w')"
    using run by (simp only: getPriceForDate_more_fuel)
  then show ?thesis by auto
qed


text \<open>At a source that answers 401 to every request, no number of attempts is enough.\<close>

lemma getPriceForDate_always_401:
  "getPriceForDate fuel (grantingEnv (\<lambda>k. HttpError 401)) orig dest date a w = None"
proof (induction fuel arbitrary: w)
  case 0
  show ?case by simp
next
  case (Suc fuel)
  have "\<exists>w1. getPriceForDate_try (grantingEnv (\<lambda>k. HttpError 401)) w = (Inl (AxiosError (Some 401)), w1)"
    by (auto simp: getPriceForDate_try_def getAccessToken_def grantingEnv_def Let_def truthy_def)
  then show ?case
    using Suc.IH by (auto simp: response_status_def)
qed



section \<open>handleSearch\<close>

text \<open>
  C8. When \<^verbatim>\<open>searchFlights\<close> rejects with an \<^verbatim>\<open>Error\<close>, the handler ends with no
  offers, an empty price series, the message of the error stored, and \<open>loading\<close> false
  (Ready), whatever the state before. A rejection with a value that is no \<^verbatim>\<open>Error\<close>
  stores the fixed message.
\<close>

theorem handleSearch_failure:
  "app_flights (handleSearch messageOf source (SearchRejected (ErrorObject msg)) params st) = []
   \<and> app_priceData (handleSearch messageOf source (SearchRejected (ErrorObject msg)) params st) = []
   \<and> app_error (handleSearch messageOf source (SearchRejected (ErrorObject msg)) params st) = Some msg
   \<and> app_loading (handleSearch messageOf source (SearchRejected (ErrorObject msg)) params st) = False
   \<and> app_error (handleSearch messageOf source (SearchRejected NotAnError) params st)
       = Some ''Failed to search flights''"
  by (simp add: handleSearch_def handleSearch_catch_def Let_def)

theorem handleSearch_failure_witness:
  "app_flights (handleSearch engineMessage scenarioSource
      (SearchRejected (ErrorObject ''Failed to authenticate with Amadeus API'')) scenarioParams
      (initialState\<lparr>app_flights := scenarioFlights, app_priceData := scenarioBase\<rparr>)) = []
   \<and> app_error (handleSearch engineMessage scenarioSource
      (SearchRejected (ErrorObject ''Failed to authenticate with Amadeus API'')) scenarioParams
      (initialState\<lparr>app_flights := scenarioFlights, app_priceData := scenarioBase\<rparr>))
     = Some ''Failed to authenticate with Amadeus API''"
  using handleSearch_failure [of engineMessage scenarioSource
      "''Failed to authenticate with Amadeus API''" scenarioParams
      "initialState\<lparr>app_flights := scenarioFlights, app_priceData := scenarioBase\<rparr>"]
  by simp

section \<open>The functions write no cell of their input\<close>

lemma those_map_nth:
  "length xs = length ys \<Longrightarrow> (\<And>i. i < length xs \<Longrightarrow> f (xs ! i) = Some (ys ! i))
     \<Longrightarrow> those (map f xs) = Some ys"
proof (induction xs ys rule: list_induct2)
  case Nil
  then show ?case by simp
next
  case (Cons x xs y ys)
  have "f x = Some y"
    using Cons.prems [of 0] by simp
  moreover have "those (map f xs) = Some ys"
  proof (rule Cons.IH)
    fix i assume "i < length xs"
    then show "f (xs ! i) = Some (ys ! i)"
      using Cons.prems [of "Suc i"] by simp
  qed
  ultimately show ?case by simp
qed

lemma those_map_cong:
  "(\<And>x. x \<in> set xs \<Longrightarrow> f x = g x) \<Longrightarrow> those (map f xs) = those (map g xs)"
  by (induction xs) (simp_all split: option.splits)

lemma those_map_Some_all:
  "those (map f xs) = Some ys \<Longrightarrow> x \<in> set xs \<Longrightarrow> \<exists>y. f x = Some y"
  by (induction xs arbitrary: ys) (auto split: option.splits)

lemma layout_length [simp]: "length (layout h0 pts) = Suc (length h0 + length pts)"
  by (simp add: layout_def)

lemma layout_take [simp]: "take (length h0) (layout h0 pts) = h0"
  by (simp add: layout_def)

lemma layout_array [simp]:
  "layout h0 pts ! length h0 = PointArrayCell (map (\<lambda>i. Suc (length h0 + i)) [0..<length pts])"
  by (simp add: layout_def)

lemma layout_point:
  "i < length pts \<Longrightarrow> layout h0 pts ! Suc (length h0 + i) = PointCell (pts ! i)"
proof -
  assume i: "i < length pts"
  have "layout h0 pts ! (length h0 + Suc i) = (PointArrayCell (map (\<lambda>i. Suc (length h0 + i)) [0..<length pts]) # map PointCell pts) ! Suc i"
    unfolding layout_def by (rule nth_append_length_plus)
  then show ?thesis
    using i by simp
qed

lemma arrayRefs_layout [simp]:
  "arrayRefs (layout h0 pts) (length h0) = map (\<lambda>i. Suc (length h0 + i)) [0..<length pts]"
  by (simp add: arrayRefs_def)

lemma readPoint_layout:
  "i < length pts \<Longrightarrow> readPoint (layout h0 pts) (Suc (length h0 + i)) = Some (pts ! i)"
  by (simp add: readPoint_def layout_point)

lemma readPoints_layout: "readPoints (layout h0 pts) (length h0) = Some pts"
proof -
  have "those (map (readPoint (layout h0 pts)) (map (\<lambda>i. Suc (length h0 + i)) [0..<length pts]))
          = Some pts"
    by (rule those_map_nth) (simp_all add: readPoint_layout)
  then show ?thesis
    by (simp add: readPoints_def)
qed

lemma alloc_empty_array: "alloc h (PointArrayCell []) = (layout h [], length h)"
  by (simp add: alloc_def layout_def)

lemma layout_snoc:
  "push (fst (alloc (layout h0 acc) (PointCell pt))) (length h0)
        (snd (alloc (layout h0 acc) (PointCell pt)))
     = layout h0 (acc @ [pt])"
proof -
  have refs: "arrayRefs (layout h0 acc @ [PointCell pt]) (length h0)
                = map (\<lambda>i. Suc (length h0 + i)) [0..<length acc]"
    by (simp add: arrayRefs_def nth_append)
  have "(layout h0 acc @ [PointCell pt])[length h0 :=
           PointArrayCell (map (\<lambda>i. Suc (length h0 + i)) [0..<length acc]
                           @ [Suc (length h0 + length acc)])]
          = layout h0 (acc @ [pt])"
    by (simp add: layout_def)
  then show ?thesis
    by (simp add: push_def alloc_def refs)
qed

lemma buildDates_store_layout:
  "buildDates_store priceMap c e (length h0) (layout h0 acc)
     = layout h0 (buildDates priceMap c e acc)"
proof (induction priceMap c e acc rule: buildDates.induct)
  case (1 priceMap c e acc)
  show ?case
  proof (cases "c \<le> e")
    case True
    let ?pt = "dataPointFor priceMap (format_date c)"
    have "buildDates_store priceMap c e (length h0) (layout h0 acc)
            = buildDates_store priceMap (addDays c 1) e (length h0) (layout h0 (acc @ [?pt]))"
      using True layout_snoc [of h0 acc ?pt]
      by (subst buildDates_store.simps) (simp add: case_prod_unfold)
    also have "\<dots> = layout h0 (buildDates priceMap (addDays c 1) e (acc @ [?pt]))"
      using "1.IH" [OF True] .
    also have "\<dots> = layout h0 (buildDates priceMap c e acc)"
      using True by (subst (2) buildDates.simps) simp
    finally show ?thesis .
  next
    case False
    then show ?thesis
      by (subst buildDates_store.simps, subst buildDates.simps) simp
  qed
qed

lemma layout_update:
  "i < length pts \<Longrightarrow> (layout h0 pts)[Suc (length h0 + i) := PointCell pt] = layout h0 (pts[i := pt])"
proof -
  assume i: "i < length pts"
  have "(layout h0 pts)[length h0 + Suc i := PointCell pt]
          = h0 @ (PointArrayCell (map (\<lambda>i. Suc (length h0 + i)) [0..<length pts]) # map PointCell pts)[Suc i := PointCell pt]"
    unfolding layout_def by (simp add: list_update_append)
  then show ?thesis
    using i by (simp add: layout_def map_update)
qed

lemma fetchOne_date:
  "j < length allDates \<Longrightarrow> point_date (fetchOne source sp allDates item ! j) = point_date (allDates ! j)"
  by (cases "j = snd item")
     (simp_all add: fetchOne_def split: fetch_outcome.splits option.splits)

lemma fetchOne_store_layout:
  assumes "i < length pts" and "point_date q = point_date (pts ! i)"
  shows "fetchOne_store source sp (length h0) (layout h0 pts) (itemRef h0 (q, i))
           = layout h0 (fetchOne source sp pts (q, i))"
  using assms
  by (simp add: fetchOne_store_def fetchOne_def itemRef_def readPoint_layout layout_update
      split: fetch_outcome.splits option.splits)

lemma foldl_fetchOne_store_layout:
  assumes "\<And>item. item \<in> set items \<Longrightarrow>
             snd item < length pts \<and> point_date (fst item) = point_date (pts ! snd item)"
  shows "foldl (fetchOne_store source sp (length h0)) (layout h0 pts) (map (itemRef h0) items)
           = layout h0 (foldl (fetchOne source sp) pts items)"
  using assms
proof (induction items arbitrary: pts)
  case Nil
  show ?case by simp
next
  case (Cons item rest)
  obtain q i where item: "item = (q, i)"
    by (cases item)
  have here: "i < length pts" "point_date q = point_date (pts ! i)"
    using Cons.prems [of item] item by simp_all
  have step: "fetchOne_store source sp (length h0) (layout h0 pts) (itemRef h0 item)
                = layout h0 (fetchOne source sp pts item)"
    unfolding item using here by (rule fetchOne_store_layout)
  have pre: "\<And>it. it \<in> set rest \<Longrightarrow>
             snd it < length (fetchOne source sp pts item)
             \<and> point_date (fst it) = point_date (fetchOne source sp pts item ! snd it)"
    using Cons.prems by (simp add: fetchOne_date)
  show ?case
    using Cons.IH [OF pre] by (simp add: step)
qed

lemma zip_upt_nth: "zip xs [0..<length xs] = map (\<lambda>i. (xs ! i, i)) [0..<length xs]"
  by (rule nth_equalityI) simp_all

lemma datesToFetch_store_layout:
  "datesToFetch_store (layout h0 pts) (length h0) = map (itemRef h0) (datesToFetch pts)"
proof -
  let ?n = "length pts"
  let ?refs = "map (\<lambda>i. Suc (length h0 + i)) [0..<?n]"
  have z1: "zip ?refs [0..<length ?refs] = map (\<lambda>i. (Suc (length h0 + i), i)) [0..<?n]"
    using zip_upt_nth [of ?refs]
    by (simp cong: map_cong)
  have z2: "zip pts [0..<?n] = map (\<lambda>i. (pts ! i, i)) [0..<?n]"
    by (rule zip_upt_nth)
  have "datesToFetch_store (layout h0 pts) (length h0)
          = map (\<lambda>i. (Suc (length h0 + i), i))
              (filter (\<lambda>i. case readPoint (layout h0 pts) (Suc (length h0 + i)) of
                             Some pt \<Rightarrow> point_price pt = None | None \<Rightarrow> False) [0..<?n])"
    unfolding datesToFetch_store_def arrayRefs_layout z1
    by (simp add: filter_map comp_def)
  also have "\<dots> = map (\<lambda>i. (Suc (length h0 + i), i))
                     (filter (\<lambda>i. point_price (pts ! i) = None) [0..<?n])"
    by (rule arg_cong [where f = "map _"], rule filter_cong) (simp_all add: readPoint_layout)
  also have "\<dots> = map (itemRef h0) (datesToFetch pts)"
    unfolding datesToFetch_def z2
    by (simp add: filter_map comp_def itemRef_def)
  finally show ?thesis .
qed

lemma fetchLoop_store_eq:
  "fetchLoop_store source sp allDates toFetch i h
     = foldl (fetchOne_store source sp allDates) h (drop i toFetch)"
proof (induction source sp allDates toFetch i h rule: fetchLoop_store.induct)
  case (1 source sp allDates toFetch i h)
  show ?case
  proof (cases "i < length toFetch")
    case True
    have "drop i toFetch = slice toFetch i (i + BATCH_SIZE) @ drop (i + BATCH_SIZE) toFetch"
      by (simp add: slice_def add.commute flip: drop_drop)
    then have "foldl (fetchOne_store source sp allDates) h (drop i toFetch)
        = foldl (fetchOne_store source sp allDates)
            (foldl (fetchOne_store source sp allDates) h (slice toFetch i (i + BATCH_SIZE)))
            (drop (i + BATCH_SIZE) toFetch)"
      by (simp only: foldl_append)
    then show ?thesis
      using True "1.IH" [OF True] by (subst fetchLoop_store.simps) simp
  next
    case False
    then show ?thesis
      by (subst fetchLoop_store.simps) simp
  qed
qed

lemma gapfill_store_layout:
  "fetchLoop_store source sp (length h0) (datesToFetch_store (layout h0 pts) (length h0)) 0
     (layout h0 pts)
   = layout h0 (fst (fetchLoop source sp (datesToFetch pts) 0 (pts, [])))"
proof -
  have pre: "\<And>item. item \<in> set (datesToFetch pts) \<Longrightarrow>
             snd item < length pts \<and> point_date (fst item) = point_date (pts ! snd item)"
    by (simp add: datesToFetch_set)
  show ?thesis
    by (simp add: fetchLoop_store_eq fetchLoop_eq datesToFetch_store_layout
        foldl_fetchOne_store_layout [OF pre])
qed

lemma readFlight_frame:
  assumes "take (length h) h' = h" and "readFlight h r = Some fl"
  shows "readFlight h' r = Some fl"
proof -
  have r: "r < length h"
    using assms(2) by (simp add: readFlight_def split: if_splits)
  have len: "length h \<le> length h'"
  proof -
    have "length (take (length h) h') = length h"
      by (simp only: assms(1))
    then show ?thesis by simp
  qed
  have "h' ! r = take (length h) h' ! r"
    using r by simp
  then have "h' ! r = h ! r"
    by (simp only: assms(1))
  then show ?thesis
    using assms(2) r len by (simp add: readFlight_def)
qed

lemma readFlights_frame:
  assumes "take (length h) h' = h" and "readFlights h a = Some flights"
  shows "readFlights h' a = Some flights"
proof -
  have a: "a < length h"
    using assms(2) by (simp add: readFlights_def split: if_splits)
  then obtain refs where cell: "h ! a = FlightArrayCell refs"
    and all: "those (map (readFlight h) refs) = Some flights"
    using assms(2) by (auto simp: readFlights_def split: cell.splits)
  have len: "length h \<le> length h'"
  proof -
    have "length (take (length h) h') = length h"
      by (simp only: assms(1))
    then show ?thesis by simp
  qed
  have "h' ! a = take (length h) h' ! a"
    using a by simp
  then have cell': "h' ! a = FlightArrayCell refs"
    by (simp only: assms(1) cell)
  have "those (map (readFlight h') refs) = those (map (readFlight h) refs)"
  proof (rule those_map_cong)
    fix r assume "r \<in> set refs"
    from those_map_Some_all [OF all this] obtain fl where "readFlight h r = Some fl" ..
    then show "readFlight h' r = readFlight h r"
      using readFlight_frame [OF assms(1)] by simp
  qed
  then show ?thesis
    using a len cell' all by (simp add: readFlights_def)
qed

lemma those_map_filter:
  "those (map f refs) = Some xs \<Longrightarrow>
   those (map f (filter (\<lambda>r. P (the (f r))) refs)) = Some (filter P xs)"
  by (induction refs arbitrary: xs) (auto split: option.splits)

lemma arrayRefs_flights:
  "readFlights h a = Some flights \<Longrightarrow>
   a < length h \<and> h ! a = FlightArrayCell (arrayRefs h a)
   \<and> those (map (readFlight h) (arrayRefs h a)) = Some flights"
  by (auto simp: readFlights_def arrayRefs_def split: if_splits cell.splits)

lemma filterFlights_store_frame:
  assumes "readFlights h a = Some flights"
  shows "\<exists>h1 b. filterFlights_store h a fs = Some (h1, b)
           \<and> take (length h) h1 = h \<and> b = length h
           \<and> readFlights h1 a = Some flights
           \<and> readFlights h1 b = Some (filterFlights flights fs)
           \<and> subseq (arrayRefs h1 b) (arrayRefs h a)"
proof -
  let ?kept = "filter (\<lambda>r. keepFlight fs (the (readFlight h r))) (arrayRefs h a)"
  let ?h1 = "h @ [FlightArrayCell ?kept]"
  note f = arrayRefs_flights [OF assms]
  have run: "filterFlights_store h a fs = Some (?h1, length h)"
    using assms by (simp add: filterFlights_store_def alloc_def)
  have frame: "take (length h) ?h1 = h"
    by simp
  have same: "readFlights ?h1 a = Some flights"
    using frame assms by (rule readFlights_frame)
  have kept: "those (map (readFlight h) ?kept) = Some (filter (keepFlight fs) flights)"
    using f by (simp add: those_map_filter)
  have "those (map (readFlight ?h1) ?kept) = those (map (readFlight h) ?kept)"
  proof (rule those_map_cong)
    fix r assume "r \<in> set ?kept"
    from those_map_Some_all [OF kept this] obtain fl where "readFlight h r = Some fl" ..
    then show "readFlight ?h1 r = readFlight h r"
      using readFlight_frame [OF frame] by simp
  qed
  then have new: "readFlights ?h1 (length h) = Some (filterFlights flights fs)"
    using kept by (simp add: readFlights_def filterFlights_def)
  have sub: "subseq (arrayRefs ?h1 (length h)) (arrayRefs h a)"
    by (simp add: arrayRefs_def)
  show ?thesis
    using run frame same new sub by blast
qed

lemma extractPriceData_store_frame:
  assumes "readFlights h a = Some flights"
  shows "\<exists>h2 res. extractPriceData_store source h a ctx = Some (h2, res)
           \<and> take (length h) h2 = h
           \<and> readFlights h2 a = Some flights
           \<and> (case res of
                 Inl e \<Rightarrow> extractPriceData source flights ctx = Inl e
               | Inr b \<Rightarrow> b = length h
                   \<and> (\<exists>pts tr. extractPriceData source flights ctx = Inr (pts, tr)
                                \<and> readPoints h2 b = Some pts))"
proof -
  have lay: "\<And>pts. readFlights (layout h pts) a = Some flights"
    using layout_take assms by (rule readFlights_frame)
  show ?thesis
  proof (cases "flights = []")
    case True
    have "extractPriceData_store source h a ctx = Some (layout h [], Inr (length h))"
      using assms True by (simp add: extractPriceData_store_def alloc_empty_array)
    moreover have "extractPriceData source flights ctx = Inr ([], [])"
      using True by (simp add: extractPriceData_empty)
    ultimately show ?thesis
      using lay [of "[]"] readPoints_layout [of h "[]"] by simp
  next
    case False
    show ?thesis
    proof (cases "groupPrices flights Map.empty")
      case (Inl e)
      then have "extractPriceData_store source h a ctx = Some (h, Inl e)"
        and "extractPriceData source flights ctx = Inl e"
        using assms False by (simp_all add: extractPriceData_store_def extractPriceData_def)
      then show ?thesis
        using assms by simp
    next
      case (Inr priceMap)
      from flightDates_defined [OF Inr] obtain ds where ds: "flightDates flights = Inr ds" ..
      define pts where "pts = buildDates priceMap (Min (set ds)) (addDays (Max (set ds)) 5) []"
      have built: "buildDates_store priceMap (Min (set ds)) (addDays (Max (set ds)) 5) (length h)
                     (layout h []) = layout h pts"
        unfolding pts_def by (rule buildDates_store_layout)
      show ?thesis
      proof (cases ctx)
        case None
        have "extractPriceData_store source h a ctx = Some (layout h pts, Inr (length h))"
          using assms False Inr ds None
          by (simp add: extractPriceData_store_def alloc_empty_array built)
        moreover have "extractPriceData source flights ctx = Inr (pts, [])"
          using False Inr ds None by (simp add: extractPriceData_def pts_def Let_def)
        ultimately show ?thesis
          using lay [of pts] readPoints_layout [of h pts] by simp
      next
        case (Some sp)
        define res where "res = fetchLoop source sp (datesToFetch pts) 0 (pts, [])"
        have "extractPriceData_store source h a ctx = Some (layout h (fst res), Inr (length h))"
          using assms False Inr ds Some
          by (simp add: extractPriceData_store_def alloc_empty_array built gapfill_store_layout
              res_def)
        moreover have "extractPriceData source flights ctx = Inr (fst res, snd res)"
          using False Inr ds Some by (simp add: extractPriceData_def pts_def res_def Let_def)
        ultimately show ?thesis
          using lay [of "fst res"] readPoints_layout [of h "fst res"]
          by (cases res) auto
      qed
    qed
  qed
qed

lemma scenarioStore_flights: "readFlights scenarioStore 3 = Some scenarioFlights"
  by code_simp

lemma scenarioStore_length: "length scenarioStore = 4"
  by code_simp

text \<open>
  C9. Let \<open>a\<close> be a reference to an array of offers in the store \<open>h\<close>. Both functions
  return, and after either call every cell of \<open>h\<close> is what it was: the array of the offers
  and each offer in it are unchanged, and \<open>a\<close> still stands for the same offers. The array
  returned is a new cell, at a reference that \<open>h\<close> did not have. For \<open>filterFlights\<close> it
  holds a subsequence of the references of the input and stands for the filtered offers;
  for \<open>extractPriceData\<close> it stands for the points of the function on values, whose
  objects are new as well, and an error leaves the store as it was.
\<close>

theorem inputs_not_written:
  assumes "readFlights h a = Some flights"
  shows "(\<exists>h1 b. filterFlights_store h a fs = Some (h1, b)
            \<and> take (length h) h1 = h \<and> b = length h
            \<and> readFlights h1 a = Some flights
            \<and> readFlights h1 b = Some (filterFlights flights fs)
            \<and> subseq (arrayRefs h1 b) (arrayRefs h a))
       \<and> (\<exists>h2 res. extractPriceData_store source h a ctx = Some (h2, res)
            \<and> take (length h) h2 = h
            \<and> readFlights h2 a = Some flights
            \<and> (case res of
                  Inl e \<Rightarrow> extractPriceData source flights ctx = Inl e
                | Inr b \<Rightarrow> b = length h
                    \<and> (\<exists>pts tr. extractPriceData source flights ctx = Inr (pts, tr)
                                 \<and> readPoints h2 b = Some pts)))"
  using filterFlights_store_frame [OF assms] extractPriceData_store_frame [OF assms]
  by blast

theorem inputs_not_written_witness:
  "readFlights scenarioStore 3 = Some scenarioFlights
   \<and> (\<exists>h1. filterFlights_store scenarioStore 3 lowCeiling = Some (h1, 4)
            \<and> take 4 h1 = scenarioStore)
   \<and> (\<exists>h2 res. extractPriceData_store scenarioSource scenarioStore 3 (Some scenarioParams)
                  = Some (h2, res)
            \<and> take 4 h2 = scenarioStore)"
  using inputs_not_written [OF scenarioStore_flights, of lowCeiling scenarioSource "Some scenarioParams"]
  by (auto simp: scenarioStore_flights scenarioStore_length)

end
